theory Spec2Isabelle
  imports Complex_Main
begin

section \<open>Python strings\<close>

text \<open>
  A Python \<open>str\<close> is a sequence of Unicode code points, and \<open>len\<close>, slicing, \<open>strip\<close>
  and the regular expressions of \<open>re\<close> all work on code points. A string is therefore a
  list of code points (natural numbers); \<open>py\<close> turns an ASCII literal into one.
\<close>

type_synonym codepoint = nat
type_synonym pystr = "codepoint list"

definition py :: "string \<Rightarrow> pystr" where
  "py s = map of_char s"

definition NL :: codepoint where
  "NL = 10"

definition SP :: codepoint where
  "SP = 32"

definition TAB :: codepoint where
  "TAB = 9"

text \<open>
  \<open>str.isspace\<close> for one code point; \<open>str.strip()\<close> and the class \<open>\s\<close> of a \<open>str\<close>
  pattern use the same table.
\<close>

definition isspace :: "codepoint \<Rightarrow> bool" where
  "isspace c \<longleftrightarrow>
     (9 \<le> c \<and> c \<le> 13) \<or> (28 \<le> c \<and> c \<le> 32) \<or> c = 133 \<or> c = 160 \<or> c = 5760
     \<or> (8192 \<le> c \<and> c \<le> 8202) \<or> c = 8232 \<or> c = 8233 \<or> c = 8239 \<or> c = 8287
     \<or> c = 12288"

text \<open>\<open>s.strip()\<close>: leading and trailing whitespace removed.\<close>

definition strip :: "pystr \<Rightarrow> pystr" where
  "strip s = rev (dropWhile isspace (rev (dropWhile isspace s)))"

text \<open>\<open>s[i:j]\<close> for \<open>0 \<le> i \<le> j\<close>; the slice is cut at the end of the string.\<close>

definition slice :: "'a list \<Rightarrow> nat \<Rightarrow> nat \<Rightarrow> 'a list" where
  "slice s i j = take (j - i) (drop i s)"

text \<open>\<open>sep.join(xs)\<close>.\<close>

fun join :: "pystr \<Rightarrow> pystr list \<Rightarrow> pystr" where
  "join sep [] = []"
| "join sep [x] = x"
| "join sep (x # y # ys) = x @ sep @ join sep (y # ys)"

text \<open>
  \<open>range(i, stop, step)\<close> as the list of the values it yields. Python raises ValueError
  for a zero step; the program only uses the constant step 4000, and the model yields the
  empty list there.
\<close>

function py_range :: "nat \<Rightarrow> nat \<Rightarrow> nat \<Rightarrow> nat list" where
  "py_range i stop step =
     (if i < stop \<and> 0 < step then i # py_range (i + step) stop step else [])"
  by pat_completeness auto
termination
  by (relation "measure (\<lambda>(i, stop, step). stop - i)") auto

declare py_range.simps [simp del]

section \<open>Chunking, as in \<open>groq_fill_missing\<close>\<close>

text \<open>\<open>[text[i:i+4000] for i in range(0, len(text), 4000)]\<close>\<close>

definition chunks :: "'a list \<Rightarrow> 'a list list" where
  "chunks text = map (\<lambda>i. slice text i (i + 4000)) (py_range 0 (length text) 4000)"

section \<open>Regular-expression substitution, as \<open>clean_text\<close> uses it\<close>

text \<open>
  \<open>re.sub(pattern, repl, text)\<close> scans the text from the left; at the first position where
  the pattern matches it writes \<open>repl\<close> and goes on after the match, and where it does not
  match it copies one character. A pattern is given by its matcher: the length of its match
  at the start of a string, and 0 when it does not match there. Neither of the two patterns
  of \<open>clean_text\<close> matches the empty string.
\<close>

function re_sub :: "(pystr \<Rightarrow> nat) \<Rightarrow> pystr \<Rightarrow> pystr \<Rightarrow> pystr" where
  "re_sub m repl [] = []"
| "re_sub m repl (c # r) =
     (let n = m (c # r)
      in if n = 0 then c # re_sub m repl r else repl @ re_sub m repl (drop n (c # r)))"
  by pat_completeness auto
termination
  by (relation "measure (\<lambda>(m, repl, s). length s)") auto

declare re_sub.simps(2) [simp del]

text \<open>The pattern \<open>[ \t]+\<close>: the longest run of spaces and tabs, at least one.\<close>

definition hspace :: "codepoint \<Rightarrow> bool" where
  "hspace c \<longleftrightarrow> c = SP \<or> c = TAB"

definition m_hspace :: "pystr \<Rightarrow> nat" where
  "m_hspace s = length (takeWhile hspace s)"

text \<open>
  The pattern \<open>\n\s*\n+\<close>. After the first newline, \<open>\s*\<close> is greedy: it first takes the
  whole run of whitespace that follows and gives characters back one at a time until
  \<open>\n+\<close> matches behind it; \<open>\n+\<close> then takes every newline it finds. \<open>nl_plus\<close> is the
  length of the match of \<open>\n+\<close> at the start of a string (0 when there is none), and
  \<open>ws_star_nl_plus k r\<close> tries \<open>\s*\<close> with \<open>k\<close> characters, then \<open>k - 1\<close>, down to none.
\<close>

definition nl_plus :: "pystr \<Rightarrow> nat" where
  "nl_plus s = length (takeWhile (\<lambda>c. c = NL) s)"

fun ws_star_nl_plus :: "nat \<Rightarrow> pystr \<Rightarrow> nat option" where
  "ws_star_nl_plus 0 r = (if 0 < nl_plus r then Some (nl_plus r) else None)"
| "ws_star_nl_plus (Suc k) r =
     (if 0 < nl_plus (drop (Suc k) r) then Some (Suc k + nl_plus (drop (Suc k) r))
      else ws_star_nl_plus k r)"

definition m_blank :: "pystr \<Rightarrow> nat" where
  "m_blank s =
     (case s of
        [] \<Rightarrow> 0
      | c # r \<Rightarrow>
          if c = NL
          then (case ws_star_nl_plus (length (takeWhile isspace r)) r of
                  None \<Rightarrow> 0
                | Some n \<Rightarrow> Suc n)
          else 0)"

section \<open>The text normalizer and the OCR adapter\<close>

definition clean_text :: "pystr \<Rightarrow> pystr" where
  "clean_text text = strip (re_sub m_blank [NL, NL] (re_sub m_hspace [SP] text))"

text \<open>
  The rasterizer and the OCR engine are external. The input of \<open>pdf_to_text\<close> is what they
  give: either \<open>convert_from_bytes\<close> raises, or it yields the pages, and for each page
  \<open>image_to_string\<close> yields its text or raises (\<open>None\<close>). The except clause covers the
  rasterizer only, so an OCR exception leaves \<open>pdf_to_text\<close> (result \<open>None\<close>).
\<close>

datatype ocr_input = RasterFails | Rasterized "pystr option list"

fun ocr_pages :: "pystr option list \<Rightarrow> pystr \<Rightarrow> pystr option" where
  "ocr_pages [] full_text = Some full_text"
| "ocr_pages (None # images) full_text = None"
| "ocr_pages (Some page_text # images) full_text =
     ocr_pages images (full_text @ clean_text page_text @ [NL, NL])"

fun pdf_to_text :: "ocr_input \<Rightarrow> pystr option" where
  "pdf_to_text RasterFails = Some []"
| "pdf_to_text (Rasterized images) = ocr_pages images []"

text \<open>
  The session state of the UI, and the step that runs OCR for an uploaded file: only when
  the session holds no OCR text yet.
\<close>

record session =
  ocr_text :: pystr
  filled_text :: pystr
  qa_history :: "(pystr \<times> pystr) list"

definition upload_step :: "ocr_input \<Rightarrow> session \<Rightarrow> session option" where
  "upload_step uploaded_file st =
     (if ocr_text st = []
      then (case pdf_to_text uploaded_file of
              None \<Rightarrow> None
            | Some t \<Rightarrow> Some (st\<lparr>ocr_text := t\<rparr>))
      else Some st)"

section \<open>The completion client\<close>

text \<open>
  A parsed JSON body, as \<open>resp.json()\<close> returns it; an object is the association list of
  its (distinct) keys.
\<close>

datatype json =
  JNull | JBool bool | JNum rat | JStr pystr | JArr "json list" | JObj "(pystr \<times> json) list"

text \<open>
  \<open>j[key]\<close> with a string key, \<open>j[0]\<close>, and \<open>j.strip()\<close>; \<open>None\<close> where Python raises
  (KeyError, IndexError, TypeError, AttributeError).
\<close>

fun getitem_key :: "json \<Rightarrow> pystr \<Rightarrow> json option" where
  "getitem_key (JObj kvs) k = map_of kvs k"
| "getitem_key _ k = None"

fun getitem_0 :: "json \<Rightarrow> json option" where
  "getitem_0 (JArr []) = None"
| "getitem_0 (JArr (x # xs)) = Some x"
| "getitem_0 (JStr []) = None"
| "getitem_0 (JStr (c # cs)) = Some (JStr [c])"
| "getitem_0 _ = None"

fun str_strip :: "json \<Rightarrow> pystr option" where
  "str_strip (JStr s) = Some (strip s)"
| "str_strip _ = None"

text \<open>\<open>body['choices'][0]['message']['content']\<close>\<close>

definition first_choice_content :: "json \<Rightarrow> json option" where
  "first_choice_content body =
     Option.bind (Option.bind (Option.bind (getitem_key body (py ''choices'')) getitem_0)
       (\<lambda>j. getitem_key j (py ''message''))) (\<lambda>j. getitem_key j (py ''content''))"

text \<open>
  One \<open>requests.post\<close>: it raises, or yields a response with a status code and a body that
  parses as JSON or does not (\<open>None\<close>).
\<close>

datatype http_outcome = Raised | Response int "json option"

record request =
  req_key :: pystr
  req_model :: pystr
  req_prompt :: pystr
  req_temperature :: rat
  req_max_tokens :: int

text \<open>
  The endpoint is external: a transport gives the outcome of the n-th request sent (counted
  from 0). The state of the network is the log of the requests sent so far.
  The UI notifications (\<open>st.error\<close>, \<open>st.info\<close>, \<open>st.warning\<close>) and \<open>time.sleep\<close> change no
  value and are left out.
\<close>

type_synonym transport = "nat \<Rightarrow> request \<Rightarrow> http_outcome"
type_synonym netlog = "request list"

definition post :: "transport \<Rightarrow> request \<Rightarrow> netlog \<Rightarrow> http_outcome \<times> netlog" where
  "post T rq sent = (T (length sent) rq, sent @ [rq])"

text \<open>
  The body of the try block for one outcome: the content to return, or \<open>None\<close> when the
  attempt fails (an exception in \<open>post\<close>, a status other than 200, or an exception while
  reading the content).
\<close>

fun attempt_content :: "http_outcome \<Rightarrow> pystr option" where
  "attempt_content Raised = None"
| "attempt_content (Response status_code body) =
     (if status_code = 200
      then Option.bind (Option.bind body first_choice_content) str_strip
      else None)"

text \<open>The loop \<open>for attempt in range(3)\<close>, by the number of attempts left.\<close>

fun attempts :: "nat \<Rightarrow> transport \<Rightarrow> request \<Rightarrow> netlog \<Rightarrow> (pystr option \<times> pystr option) \<times> netlog" where
  "attempts 0 T rq sent = ((None, Some (py ''Failed after retries'')), sent)"
| "attempts (Suc n) T rq sent =
     (case post T rq sent of
        (resp, sent') \<Rightarrow>
          (case attempt_content resp of
             Some content \<Rightarrow> ((Some content, None), sent')
           | None \<Rightarrow> attempts n T rq sent'))"

record config =
  GROQ_API_KEY :: pystr
  GROQ_MODEL :: pystr

text \<open>The headers and the JSON payload that \<open>call_groq\<close> builds for its requests.\<close>

definition groq_request :: "config \<Rightarrow> pystr \<Rightarrow> rat \<Rightarrow> int \<Rightarrow> request" where
  "groq_request cfg prompt temperature max_tokens =
     \<lparr>req_key = GROQ_API_KEY cfg, req_model = GROQ_MODEL cfg, req_prompt = prompt,
      req_temperature = temperature, req_max_tokens = max_tokens\<rparr>"

definition call_groq ::
  "config \<Rightarrow> transport \<Rightarrow> pystr \<Rightarrow> rat \<Rightarrow> int \<Rightarrow> netlog \<Rightarrow> (pystr option \<times> pystr option) \<times> netlog" where
  "call_groq cfg T prompt temperature max_tokens sent =
     (if GROQ_API_KEY cfg = [] then ((None, Some (py ''Missing GROQ_API_KEY'')), sent)
      else attempts 3 T (groq_request cfg prompt temperature max_tokens) sent)"

section \<open>The fill workflow and the question-answering workflow\<close>

text \<open>\<open>content if content else fallback\<close>: \<open>None\<close> and the empty string are both falsy.\<close>

fun content_or :: "pystr option \<Rightarrow> pystr \<Rightarrow> pystr" where
  "content_or None fallback = fallback"
| "content_or (Some content) fallback = (if content = [] then fallback else content)"

definition fill_prompt :: "pystr \<Rightarrow> pystr" where
  "fill_prompt chunk =
     [NL] @ py ''You are an expert form assistant. The scanned form text below has missing values like ''
     @ [39] @ py ''N/A'' @ [39] @ py '', '' @ [39] @ py ''nan'' @ [39] @ py '', or ''
     @ [39] @ py ''---'' @ [39] @ py ''.'' @ [NL]
     @ py ''Please fill missing values realistically, preserving format.'' @ [NL]
     @ [NL]
     @ py ''--- FORM START ---'' @ [NL]
     @ chunk @ [NL]
     @ py ''--- FORM END ---'' @ [NL]"

definition call_groq_chunk :: "config \<Rightarrow> transport \<Rightarrow> pystr \<Rightarrow> netlog \<Rightarrow> pystr \<times> netlog" where
  "call_groq_chunk cfg T chunk sent =
     (case call_groq cfg T (fill_prompt chunk) (1 / 5) 1300 sent of
        ((content, err), sent') \<Rightarrow> (content_or content (py ''AI filling failed.''), sent'))"

text \<open>The loop over the chunks, with the list \<open>filled_chunks\<close> it appends to.\<close>

fun fill_loop ::
  "config \<Rightarrow> transport \<Rightarrow> pystr list \<Rightarrow> pystr list \<Rightarrow> netlog \<Rightarrow> pystr list \<times> netlog" where
  "fill_loop cfg T [] filled_chunks sent = (filled_chunks, sent)"
| "fill_loop cfg T (chunk # rest) filled_chunks sent =
     (case call_groq_chunk cfg T chunk sent of
        (filled, sent') \<Rightarrow> fill_loop cfg T rest (filled_chunks @ [filled]) sent')"

definition groq_fill_missing :: "config \<Rightarrow> transport \<Rightarrow> pystr \<Rightarrow> netlog \<Rightarrow> pystr \<times> netlog" where
  "groq_fill_missing cfg T text sent =
     (if 8000 < length text
      then (case fill_loop cfg T (chunks text) [] sent of
              (filled_chunks, sent') \<Rightarrow> (join [NL] filled_chunks, sent'))
      else call_groq_chunk cfg T text sent)"

definition answer_prompt :: "pystr \<Rightarrow> pystr \<Rightarrow> pystr" where
  "answer_prompt filled question =
     [NL] @ py ''You are a document information extractor.'' @ [NL]
     @ py ''Answer the user'' @ [39] @ py ''s question based ONLY on the given form text.'' @ [NL]
     @ py ''If the answer is not explicitly present, reply '' @ [34]
     @ py ''Not available in the form.'' @ [34] @ [NL]
     @ [NL]
     @ py ''--- FORM START ---'' @ [NL]
     @ filled @ [NL]
     @ py ''--- FORM END ---'' @ [NL]
     @ [NL]
     @ py ''Question: '' @ question @ [NL]
     @ py ''Answer:'' @ [NL]"

definition groq_answer_question ::
  "config \<Rightarrow> transport \<Rightarrow> pystr \<Rightarrow> pystr \<Rightarrow> netlog \<Rightarrow> pystr \<times> netlog" where
  "groq_answer_question cfg T filled question sent =
     (case call_groq cfg T (answer_prompt filled question) 0 400 sent of
        ((content, err), sent') \<Rightarrow> (content_or content (py ''AI failed to answer.''), sent'))"

section \<open>The PDF renderer\<close>

text \<open>
  The canvas is external; the model keeps the calls made on it, in order. The page is
  LETTER, 612 by 792 points; the cursor \<open>y\<close> only takes whole values, which the floats of
  the source hold exactly.
\<close>

datatype canvas_op = SetFont string nat | DrawString int int pystr | ShowPage | Save

text \<open>\<open>text.split(sep)\<close> for a one-character separator; \<open>cur\<close> is the piece being read.\<close>

fun split_acc :: "'a \<Rightarrow> 'a list \<Rightarrow> 'a list \<Rightarrow> 'a list list" where
  "split_acc sep cur [] = [cur]"
| "split_acc sep cur (c # cs) =
     (if c = sep then cur # split_acc sep [] cs else split_acc sep (cur @ [c]) cs)"

definition split_on :: "'a \<Rightarrow> 'a list \<Rightarrow> 'a list list" where
  "split_on sep s = split_acc sep [] s"

text \<open>The inner loop \<open>while len(line) > 110\<close>.\<close>

function wrap_loop :: "pystr \<Rightarrow> int \<Rightarrow> canvas_op list \<Rightarrow> pystr \<times> int \<times> canvas_op list" where
  "wrap_loop line y ops =
     (if 110 < length line
      then wrap_loop (drop 110 line) (y - 12) (ops @ [DrawString 40 y (take 110 line)])
      else (line, y, ops))"
  by pat_completeness auto
termination
  by (relation "measure (\<lambda>(line, y, ops). length line)") auto

declare wrap_loop.simps [simp del]

text \<open>The body of the loop over the lines, on the cursor and the canvas.\<close>

definition render_line :: "pystr \<Rightarrow> int \<times> canvas_op list \<Rightarrow> int \<times> canvas_op list" where
  "render_line line st =
     (case st of
        (y, ops) \<Rightarrow>
          if strip line = [] then (y - 12, ops)
          else (case wrap_loop line y ops of
                  (line', y', ops') \<Rightarrow>
                    if y' - 12 < 40
                    then (792 - 40,
                          ops' @ [DrawString 40 y' (strip line'), ShowPage, SetFont ''Helvetica'' 10])
                    else (y' - 12, ops' @ [DrawString 40 y' (strip line')])))"

definition generate_pdf :: "pystr \<Rightarrow> canvas_op list" where
  "generate_pdf filled =
     snd (fold render_line (split_on NL filled)
            (792 - 40 - 30,
             [SetFont ''Helvetica-Bold'' 14,
              DrawString 40 (792 - 40) (py ''Final Clean Form (AI-filled)''),
              SetFont ''Helvetica'' 10]))
     @ [Save]"

section \<open>Normal forms of the text normalizer\<close>

text \<open>
  The two substitutions of \<open>clean_text\<close>, the whitespace a string starts with, and the
  strings each substitution leaves unchanged: in a single-spaced string every space or tab
  is one space with no space or tab after it; in a blank-normal string a newline is
  followed, within the whitespace after it, by no further newline, or by exactly one that
  comes right after it.
\<close>

abbreviation sub_hspace :: "pystr \<Rightarrow> pystr" where
  "sub_hspace \<equiv> re_sub m_hspace [SP]"

abbreviation sub_blank :: "pystr \<Rightarrow> pystr" where
  "sub_blank \<equiv> re_sub m_blank [NL, NL]"

abbreviation lead :: "pystr \<Rightarrow> pystr" where
  "lead \<equiv> takeWhile isspace"

fun single_spaced :: "pystr \<Rightarrow> bool" where
  "single_spaced [] = True"
| "single_spaced (c # r) =
     (if hspace c then c = SP \<and> takeWhile hspace r = [] \<and> single_spaced r else single_spaced r)"

fun blank_normal :: "pystr \<Rightarrow> bool" where
  "blank_normal [] = True"
| "blank_normal [c] = True"
| "blank_normal (c # d # r) =
     ((if c = NL then NL \<notin> set (lead (d # r)) \<or> (d = NL \<and> NL \<notin> set (lead r)) else True)
      \<and> blank_normal (d # r))"

section \<open>Test doubles\<close>

text \<open>Configurations, response bodies and transports for the concrete runs below.\<close>

definition cfg_with_key :: config where
  "cfg_with_key = \<lparr>GROQ_API_KEY = py ''gsk_test'', GROQ_MODEL = py ''llama3-8b-8192''\<rparr>"

definition cfg_no_key :: config where
  "cfg_no_key = \<lparr>GROQ_API_KEY = [], GROQ_MODEL = py ''llama3-8b-8192''\<rparr>"

definition ok_body :: "pystr \<Rightarrow> json" where
  "ok_body content =
     JObj [(py ''choices'',
            JArr [JObj [(py ''index'', JNum 0),
                        (py ''message'',
                         JObj [(py ''role'', JStr (py ''assistant'')),
                               (py ''content'', JStr content)])]])]"

definition always_500 :: transport where
  "always_500 n rq = Response 500 None"

definition ok_on_second :: transport where
  "ok_on_second n rq =
     (if n = 1 then Response 200 (Some (ok_body (SP # py ''John Doe'' @ [NL]))) else Response 503 None)"

definition always_blank_200 :: transport where
  "always_blank_200 n rq = Response 200 (Some (ok_body [SP, NL]))"

definition echo_200 :: transport where
  "echo_200 n rq = Response 200 (Some (ok_body (py ''filled'')))"

definition scripted :: transport where
  "scripted n rq =
     (if n = 0 then Response 200 (Some (ok_body (py ''A'')))
      else if n = 4 then Response 200 (Some (ok_body (py ''C'')))
      else Response 500 None)"

definition three_chunk_text :: pystr where
  "three_chunk_text = replicate 4000 97 @ replicate 4000 98 @ [99]"

section \<open>Properties of chunking\<close>

lemma concat_slices:
  "0 < n \<Longrightarrow> concat (map (\<lambda>i. slice text i (i + n)) (py_range i (length text) n)) = drop i text"
proof (induction i "length text" n rule: py_range.induct)
  case (1 i step)
  show ?case
  proof (cases "i < length text")
    case True
    have "take step (drop i text) @ drop (i + step) text = drop i text"
      by (metis add.commute append_take_drop_id drop_drop)
    with True 1 show ?thesis
      by (subst py_range.simps) (simp add: slice_def)
  next
    case False
    then show ?thesis
      by (subst py_range.simps) simp
  qed
qed

lemma slices_bounded:
  "c \<in> set (map (\<lambda>i. slice text i (i + n)) (py_range i stop n)) \<Longrightarrow> length c \<le> n"
  by (auto simp: slice_def)

lemma length_py_range:
  "0 < n \<Longrightarrow> length (py_range i stop n) = (stop - i + n - 1) div n"
proof (induction i stop n rule: py_range.induct)
  case (1 i stop step)
  show ?case
  proof (cases "i < stop")
    case True
    have "(stop - i + step - 1) div step = Suc ((stop - (i + step) + step - 1) div step)"
    proof (cases "i + step \<le> stop")
      case True
      then have "stop - i + step - 1 = (stop - (i + step) + step - 1) + step"
        using 1(2) by arith
      then show ?thesis
        using 1(2) by (metis Suc_eq_plus1 div_add_self2 less_numeral_extra(3))
    next
      case False
      with \<open>i < stop\<close> 1(2) have "step \<le> stop - i + step - 1" "stop - i + step - 1 < 2 * step"
        by arith+
      then have "(stop - i + step - 1) div step = 1"
        by (simp add: div_nat_eqI)
      moreover from False 1(2) have "(stop - (i + step) + step - 1) div step = 0"
        by simp
      ultimately show ?thesis by simp
    qed
    with True 1 show ?thesis
      by (subst py_range.simps) simp
  next
    case False
    with 1(2) show ?thesis
      by (subst py_range.simps) simp
  qed
qed

text \<open>
  C1: the chunks partition the text. Concatenated in order they give the text back, no
  chunk is longer than 4000 characters, and there are ceil(len(text) / 4000) of them.
\<close>

theorem chunks_partition:
  "concat (chunks text) = text
   \<and> (\<forall>c \<in> set (chunks text). length c \<le> 4000)
   \<and> int (length (chunks text)) = \<lceil>real (length text) / 4000\<rceil>"
proof (intro conjI)
  show "concat (chunks text) = text"
    using concat_slices [of 4000 "text" 0] by (simp add: chunks_def)
  show "\<forall>c \<in> set (chunks text). length c \<le> 4000"
    unfolding chunks_def using slices_bounded by blast
  have "length (chunks text) = (length text + 3999) div 4000"
    by (simp add: chunks_def length_py_range)
  moreover have "int ((length text + 3999) div 4000) = \<lceil>real (length text) / 4000\<rceil>"
  proof -
    define q r where "q = length text div 4000" and "r = length text mod 4000"
    have l: "length text = 4000 * q + r" and r: "r < 4000"
      by (simp_all add: q_def r_def)
    show ?thesis
    proof (cases "r = 0")
      case True
      then show ?thesis using l by simp
    next
      case False
      with r have "(length text + 3999) div 4000 = q + 1"
        unfolding l by (simp add: div_nat_eqI)
      moreover have "\<lceil>real (length text) / 4000\<rceil> = int q + 1"
      proof (rule ceiling_unique)
        show "of_int (int q + 1) - 1 < real (length text) / 4000"
          using False unfolding l by (simp add: field_simps)
        show "real (length text) / 4000 \<le> of_int (int q + 1)"
          using r unfolding l by (simp add: field_simps)
      qed
      ultimately show ?thesis by simp
    qed
  qed
  ultimately show "int (length (chunks text)) = \<lceil>real (length text) / 4000\<rceil>"
    by simp
qed

theorem chunks_partition_witness:
  "concat (chunks (replicate 8001 (97::nat))) = replicate 8001 97
   \<and> length (chunks (replicate 8001 (97::nat))) = 3"
  using chunks_partition [of "replicate 8001 (97::nat)"] by simp

section \<open>Properties of the completion client\<close>

lemma attempts_all_fail:
  "(\<And>k. k < n \<Longrightarrow> attempt_content (T (length sent + k) rq) = None) \<Longrightarrow>
   attempts n T rq sent = ((None, Some (py ''Failed after retries'')), sent @ replicate n rq)"
proof (induction n arbitrary: sent)
  case 0
  then show ?case by simp
next
  case (Suc n)
  have first: "attempt_content (T (length sent) rq) = None"
    using Suc.prems [of 0] by simp
  have rest: "attempts n T rq (sent @ [rq]) =
      ((None, Some (py ''Failed after retries'')), (sent @ [rq]) @ replicate n rq)"
  proof (rule Suc.IH)
    fix k assume "k < n"
    then show "attempt_content (T (length (sent @ [rq]) + k) rq) = None"
      using Suc.prems [of "Suc k"] by simp
  qed
  show ?case
    using first rest by (simp add: post_def replicate_app_Cons_same)
qed

lemma attempts_sent:
  "\<exists>k\<le>n. snd (attempts n T rq sent) = sent @ replicate k rq"
proof (induction n arbitrary: sent)
  case 0
  then show ?case by simp
next
  case (Suc n)
  show ?case
  proof (cases "attempt_content (T (length sent) rq)")
    case None
    from Suc.IH [of "sent @ [rq]"] obtain k where
      k: "k \<le> n" "snd (attempts n T rq (sent @ [rq])) = (sent @ [rq]) @ replicate k rq"
      by blast
    then have "snd (attempts (Suc n) T rq sent) = sent @ replicate (Suc k) rq"
      using None by (simp add: post_def)
    with k(1) show ?thesis
      by (metis Suc_le_mono)
  next
    case (Some c)
    then have "snd (attempts (Suc n) T rq sent) = sent @ replicate 1 rq"
      by (simp add: post_def)
    then show ?thesis
      by (metis One_nat_def Suc_le_mono le0)
  qed
qed

text \<open>
  C5: with no API key configured, \<open>call_groq\<close> fails at once, whatever the prompt, the
  temperature and the token limit: it returns no content and the missing-credential reason
  (the string \<open>Missing GROQ_API_KEY\<close> in the source), and it sends nothing: the log of
  requests is unchanged and the transport is never asked.
\<close>

theorem call_groq_missing_key:
  "GROQ_API_KEY cfg = [] \<Longrightarrow>
   call_groq cfg T prompt temperature max_tokens sent =
     ((None, Some (py ''Missing GROQ_API_KEY'')), sent)"
  by (simp add: call_groq_def)

theorem call_groq_missing_key_witness:
  "call_groq cfg_no_key echo_200 (py ''Name?'') 0 400 [] =
     ((None, Some (py ''Missing GROQ_API_KEY'')), [])"
  using call_groq_missing_key [of cfg_no_key echo_200 "py ''Name?''" 0 400 "[]"]
  by (simp add: cfg_no_key_def)

lemma first_choice_content_ok_body: "first_choice_content (ok_body c) = Some (JStr c)"
  by (simp add: first_choice_content_def ok_body_def py_def)

text \<open>
  C4: with a key configured, for every prompt: when the transport answers every request
  with a status other than 200, \<open>call_groq\<close> sends exactly 3 requests and returns no content
  and the failed-after-retries reason (the string \<open>Failed after retries\<close> in the source);
  when the first attempt fails and the second is answered with status 200 and a body whose
  first choice has a message content string, it returns that content stripped, with no
  error, after exactly 2 requests.
\<close>

theorem call_groq_retries:
  "GROQ_API_KEY cfg \<noteq> [] \<Longrightarrow>
   ((\<forall>n. \<exists>status_code body.
        T n (groq_request cfg prompt temperature max_tokens) = Response status_code body
        \<and> status_code \<noteq> 200) \<longrightarrow>
    call_groq cfg T prompt temperature max_tokens sent =
      ((None, Some (py ''Failed after retries'')),
       sent @ replicate 3 (groq_request cfg prompt temperature max_tokens)))
   \<and> (attempt_content (T (length sent) (groq_request cfg prompt temperature max_tokens)) = None
      \<and> T (Suc (length sent)) (groq_request cfg prompt temperature max_tokens)
          = Response 200 (Some body2)
      \<and> first_choice_content body2 = Some (JStr content) \<longrightarrow>
      call_groq cfg T prompt temperature max_tokens sent =
        ((Some (strip content), None),
         sent @ replicate 2 (groq_request cfg prompt temperature max_tokens)))"
proof (intro conjI impI)
  define rq where "rq = groq_request cfg prompt temperature max_tokens"
  assume key: "GROQ_API_KEY cfg \<noteq> []"
  {
    assume "\<forall>n. \<exists>status_code body.
        T n (groq_request cfg prompt temperature max_tokens) = Response status_code body
        \<and> status_code \<noteq> 200"
    then have "attempt_content (T n rq) = None" for n
      unfolding rq_def by (metis attempt_content.simps(2))
    then have "attempts 3 T rq sent = ((None, Some (py ''Failed after retries'')), sent @ replicate 3 rq)"
      by (intro attempts_all_fail) simp
    with key show "call_groq cfg T prompt temperature max_tokens sent =
      ((None, Some (py ''Failed after retries'')),
       sent @ replicate 3 (groq_request cfg prompt temperature max_tokens))"
      by (simp add: call_groq_def rq_def)
  }
  {
    assume a: "attempt_content (T (length sent) (groq_request cfg prompt temperature max_tokens)) = None
      \<and> T (Suc (length sent)) (groq_request cfg prompt temperature max_tokens)
          = Response 200 (Some body2)
      \<and> first_choice_content body2 = Some (JStr content)"
    have "attempts (Suc (Suc (Suc 0))) T rq sent = ((Some (strip content), None), sent @ [rq, rq])"
      using a unfolding rq_def [symmetric] by (simp add: post_def)
    with key show "call_groq cfg T prompt temperature max_tokens sent =
        ((Some (strip content), None),
         sent @ replicate 2 (groq_request cfg prompt temperature max_tokens))"
      by (simp add: call_groq_def rq_def numeral_3_eq_3 numeral_2_eq_2)
  }
qed

lemma strip_example: "strip (SP # py ''John Doe'' @ [NL]) = py ''John Doe''"
  by (simp add: strip_def py_def SP_def NL_def isspace_def)

theorem call_groq_retries_witness:
  "call_groq cfg_with_key always_500 (py ''Name?'') 0 400 [] =
     ((None, Some (py ''Failed after retries'')),
      replicate 3 (groq_request cfg_with_key (py ''Name?'') 0 400))
   \<and> call_groq cfg_with_key ok_on_second (py ''Name?'') 0 400 [] =
     ((Some (py ''John Doe''), None), replicate 2 (groq_request cfg_with_key (py ''Name?'') 0 400))"
proof -
  have key: "GROQ_API_KEY cfg_with_key \<noteq> []"
    by (simp add: cfg_with_key_def py_def)
  have down: "\<forall>n. \<exists>status_code body.
      always_500 n (groq_request cfg_with_key (py ''Name?'') 0 400) = Response status_code body
      \<and> status_code \<noteq> 200"
    by (simp add: always_500_def)
  have second: "attempt_content (ok_on_second (length ([] :: netlog))
        (groq_request cfg_with_key (py ''Name?'') 0 400)) = None
      \<and> ok_on_second (Suc (length ([] :: netlog))) (groq_request cfg_with_key (py ''Name?'') 0 400)
          = Response 200 (Some (ok_body (SP # py ''John Doe'' @ [NL])))
      \<and> first_choice_content (ok_body (SP # py ''John Doe'' @ [NL]))
          = Some (JStr (SP # py ''John Doe'' @ [NL]))"
    by (simp add: ok_on_second_def first_choice_content_ok_body)
  show ?thesis
    using call_groq_retries [OF key, of always_500 "py ''Name?''" 0 400 "[]"] down
      call_groq_retries [OF key, of ok_on_second "py ''Name?''" 0 400 "[]"
        "ok_body (SP # py ''John Doe'' @ [NL])" "SP # py ''John Doe'' @ [NL]"] second
    by (simp only: strip_example append_Nil simp_thms)
qed

section \<open>Properties of the fill and question-answering workflows\<close>

lemma dropWhile_Nil_iff: "dropWhile P xs = [] \<longleftrightarrow> (\<forall>x \<in> set xs. P x)"
  by (induction xs) auto

lemma dropWhile_all_Nil: "(\<forall>x \<in> set (dropWhile P xs). P x) \<longleftrightarrow> dropWhile P xs = []"
proof (cases "dropWhile P xs")
  case Nil
  show ?thesis unfolding Nil by simp
next
  case (Cons a as)
  then have "\<not> P a"
    by (metis hd_dropWhile list.distinct(1) list.sel(1))
  moreover have "a \<in> set (dropWhile P xs)"
    using Cons by simp
  ultimately have "\<not> (\<forall>x \<in> set (dropWhile P xs). P x)"
    by blast
  moreover have "dropWhile P xs \<noteq> []"
    using Cons by simp
  ultimately show ?thesis
    by (simp only: simp_thms)
qed

lemma strip_Nil_iff: "strip s = [] \<longleftrightarrow> (\<forall>x \<in> set s. isspace x)"
proof -
  have "strip s = [] \<longleftrightarrow> dropWhile isspace (rev (dropWhile isspace s)) = []"
    by (simp add: strip_def)
  also have "\<dots> \<longleftrightarrow> (\<forall>x \<in> set (dropWhile isspace s). isspace x)"
    unfolding dropWhile_Nil_iff by simp
  also have "\<dots> \<longleftrightarrow> dropWhile isspace s = []"
    by (rule dropWhile_all_Nil)
  finally show ?thesis
    unfolding dropWhile_Nil_iff .
qed

lemma call_groq_first_ok:
  assumes "GROQ_API_KEY cfg \<noteq> []"
    and "T (length sent) (groq_request cfg prompt temperature max_tokens) = Response 200 (Some body)"
    and "first_choice_content body = Some (JStr content)"
  shows "call_groq cfg T prompt temperature max_tokens sent =
    ((Some (strip content), None), sent @ [groq_request cfg prompt temperature max_tokens])"
  using assms by (simp add: call_groq_def numeral_3_eq_3 post_def)

lemma call_groq_chunk_eq:
  "call_groq_chunk cfg T chunk sent =
     (content_or (fst (fst (call_groq cfg T (fill_prompt chunk) (1 / 5) 1300 sent)))
        (py ''AI filling failed.''),
      snd (call_groq cfg T (fill_prompt chunk) (1 / 5) 1300 sent))"
  by (simp add: call_groq_chunk_def split: prod.splits)

lemma groq_answer_question_eq:
  "groq_answer_question cfg T filled question sent =
     (content_or (fst (fst (call_groq cfg T (answer_prompt filled question) 0 400 sent)))
        (py ''AI failed to answer.''),
      snd (call_groq cfg T (answer_prompt filled question) 0 400 sent))"
  by (simp add: groq_answer_question_def split: prod.splits)

lemma py_range_nth:
  "0 < n \<Longrightarrow> i < length (py_range a stop n) \<Longrightarrow> py_range a stop n ! i = a + i * n"
proof (induction a stop n arbitrary: i rule: py_range.induct)
  case (1 a stop step)
  show ?case
  proof (cases "a < stop")
    case True
    then have eq: "py_range a stop step = a # py_range (a + step) stop step"
      using 1(2) by (subst py_range.simps) simp
    show ?thesis
    proof (cases i)
      case 0
      then show ?thesis by (simp add: eq)
    next
      case (Suc j)
      with 1(3) eq have "j < length (py_range (a + step) stop step)"
        by simp
      with True 1(1,2) have "py_range (a + step) stop step ! j = a + step + j * step"
        by simp
      with Suc show ?thesis by (simp add: eq)
    qed
  next
    case False
    with 1(3) show ?thesis
      by (subst (asm) py_range.simps) simp
  qed
qed

lemma chunks_nth:
  "i < length (chunks text) \<Longrightarrow> chunks text ! i = take 4000 (drop (4000 * i) text)"
  using py_range_nth [of 4000 i 0 "length text"]
  by (simp add: chunks_def slice_def mult.commute)

lemma length_chunks: "length (chunks text) = (length text + 3999) div 4000"
  by (simp add: chunks_def length_py_range)

lemma join_concat:
  "xs \<noteq> [] \<Longrightarrow> join sep xs = concat (map (\<lambda>x. x @ sep) (butlast xs)) @ last xs"
  by (induction sep xs rule: join.induct) simp_all

lemma content_or_case:
  "content_or x fallback =
     (case x of None \<Rightarrow> fallback | Some content \<Rightarrow> if content = [] then fallback else content)"
  by (cases x) simp_all

lemma attempts_sent_pos:
  "\<exists>k. 1 \<le> k \<and> k \<le> Suc n \<and> snd (attempts (Suc n) T rq sent) = sent @ replicate k rq"
proof (cases "attempt_content (T (length sent) rq)")
  case None
  from attempts_sent [of n T rq "sent @ [rq]"] obtain k where
    k: "k \<le> n" "snd (attempts n T rq (sent @ [rq])) = (sent @ [rq]) @ replicate k rq"
    by blast
  then have "snd (attempts (Suc n) T rq sent) = sent @ replicate (Suc k) rq"
    using None by (simp add: post_def)
  moreover have "1 \<le> Suc k" "Suc k \<le> Suc n"
    using k(1) by simp_all
  ultimately show ?thesis by blast
next
  case (Some c)
  then have "snd (attempts (Suc n) T rq sent) = sent @ replicate 1 rq"
    by (simp add: post_def)
  moreover have "(1::nat) \<le> 1" "1 \<le> Suc n"
    by simp_all
  ultimately show ?thesis by blast
qed

lemma call_groq_sent_count:
  "\<exists>k. (if GROQ_API_KEY cfg = [] then k = 0 else 1 \<le> k \<and> k \<le> 3)
     \<and> snd (call_groq cfg T prompt temperature max_tokens sent) =
         sent @ replicate k (groq_request cfg prompt temperature max_tokens)"
proof (cases "GROQ_API_KEY cfg = []")
  case True
  then have "snd (call_groq cfg T prompt temperature max_tokens sent) =
      sent @ replicate 0 (groq_request cfg prompt temperature max_tokens)"
    by (simp add: call_groq_def)
  with True show ?thesis by auto
next
  case False
  then show ?thesis
    using attempts_sent_pos [of 2 T "groq_request cfg prompt temperature max_tokens" sent]
    by (simp add: call_groq_def numeral_3_eq_3)
qed

lemma scripted_first:
  "call_groq cfg_with_key scripted prompt temperature max_tokens [] =
     ((Some (py ''A''), None), [groq_request cfg_with_key prompt temperature max_tokens])"
proof -
  have key: "GROQ_API_KEY cfg_with_key \<noteq> []"
    by (simp add: cfg_with_key_def py_def)
  have "strip (py ''A'') = py ''A''"
    by (simp add: strip_def py_def isspace_def)
  then show ?thesis
    using call_groq_first_ok [OF key _ first_choice_content_ok_body,
        of scripted "[]" prompt temperature max_tokens "py ''A''"]
    by (simp add: scripted_def)
qed

lemma scripted_second:
  assumes "length sent = 1"
  shows "call_groq cfg_with_key scripted prompt temperature max_tokens sent =
     ((None, Some (py ''Failed after retries'')),
      sent @ replicate 3 (groq_request cfg_with_key prompt temperature max_tokens))"
proof -
  have key: "GROQ_API_KEY cfg_with_key \<noteq> []"
    by (simp add: cfg_with_key_def py_def)
  have "attempts 3 scripted (groq_request cfg_with_key prompt temperature max_tokens) sent =
     ((None, Some (py ''Failed after retries'')),
      sent @ replicate 3 (groq_request cfg_with_key prompt temperature max_tokens))"
    by (rule attempts_all_fail) (simp add: scripted_def assms)
  with key show ?thesis
    by (simp add: call_groq_def)
qed

lemma scripted_third:
  assumes "length sent = 4"
  shows "call_groq cfg_with_key scripted prompt temperature max_tokens sent =
     ((Some (py ''C''), None), sent @ [groq_request cfg_with_key prompt temperature max_tokens])"
proof -
  have key: "GROQ_API_KEY cfg_with_key \<noteq> []"
    by (simp add: cfg_with_key_def py_def)
  have "strip (py ''C'') = py ''C''"
    by (simp add: strip_def py_def isspace_def)
  then show ?thesis
    using call_groq_first_ok [OF key _ first_choice_content_ok_body,
        of scripted sent prompt temperature max_tokens "py ''C''"]
    by (simp add: scripted_def assms)
qed

lemma three_chunk_text_parts:
  "length three_chunk_text = 8001"
  "take 4000 three_chunk_text = replicate 4000 97"
  "take 4000 (drop 4000 three_chunk_text) = replicate 4000 98"
  "drop 8000 three_chunk_text = [99]"
  by (simp_all add: three_chunk_text_def)

text \<open>
  C10: when the endpoint answers with status 200 and a first-choice content that is empty
  or all whitespace, \<open>call_groq\<close> reports success with the empty string and no error; yet
  the fill workflow returns \<open>AI filling failed.\<close> and the question-answering workflow
  returns \<open>AI failed to answer.\<close>, the same values they return when \<open>call_groq\<close> fails.
\<close>

theorem blank_content_falls_back:
  assumes "GROQ_API_KEY cfg \<noteq> []"
    and "\<forall>rq. T (length sent) rq = Response 200 (Some body)"
    and "first_choice_content body = Some (JStr content)"
    and "\<forall>x \<in> set content. isspace x"
  shows "fst (call_groq cfg T prompt temperature max_tokens sent) = (Some [], None)
    \<and> fst (call_groq_chunk cfg T chunk sent) = py ''AI filling failed.''
    \<and> (length text \<le> 8000 \<longrightarrow> fst (groq_fill_missing cfg T text sent) = py ''AI filling failed.'')
    \<and> fst (groq_answer_question cfg T filled question sent) = py ''AI failed to answer.''
    \<and> (\<forall>T' sent'. fst (fst (call_groq cfg T' (fill_prompt chunk) (1 / 5) 1300 sent')) = None \<longrightarrow>
          fst (call_groq_chunk cfg T' chunk sent') = py ''AI filling failed.'')
    \<and> (\<forall>T' sent'. fst (fst (call_groq cfg T' (answer_prompt filled question) 0 400 sent')) = None \<longrightarrow>
          fst (groq_answer_question cfg T' filled question sent') = py ''AI failed to answer.'')"
proof -
  have blank: "strip content = []"
    using assms(4) by (simp add: strip_Nil_iff)
  have ok: "fst (call_groq cfg T p t m sent) = (Some [], None)" for p t m
    using call_groq_first_ok [OF assms(1) _ assms(3), of T sent p t m] assms(2) blank by simp
  have chunk: "fst (call_groq_chunk cfg T c sent) = py ''AI filling failed.''" for c
    by (simp add: call_groq_chunk_eq ok)
  show ?thesis
    by (simp add: ok chunk groq_fill_missing_def call_groq_chunk_eq groq_answer_question_eq)
qed

theorem blank_content_falls_back_witness:
  "fst (call_groq cfg_with_key always_blank_200 (py ''Name?'') 0 400 []) = (Some [], None)
   \<and> fst (call_groq_chunk cfg_with_key always_blank_200 (py ''Name: ---'') []) = py ''AI filling failed.''
   \<and> fst (groq_fill_missing cfg_with_key always_blank_200 (py ''Name: ---'') []) = py ''AI filling failed.''
   \<and> fst (groq_answer_question cfg_with_key always_blank_200 (py ''Name: ---'') (py ''Name?'') [])
       = py ''AI failed to answer.''"
proof -
  have key: "GROQ_API_KEY cfg_with_key \<noteq> []"
    by (simp add: cfg_with_key_def py_def)
  have resp: "\<forall>rq. always_blank_200 (length ([] :: netlog)) rq = Response 200 (Some (ok_body [SP, NL]))"
    by (simp add: always_blank_200_def)
  have ws: "\<forall>x \<in> set [SP, NL]. isspace x"
    by (simp add: SP_def NL_def isspace_def)
  have len: "length (py ''Name: ---'') \<le> 8000"
    by (simp add: py_def)
  show ?thesis
    using blank_content_falls_back [of cfg_with_key always_blank_200 "[]" "ok_body [SP, NL]" "[SP, NL]"
        "py ''Name?''" 0 400 "py ''Name: ---''" "py ''Name: ---''" "py ''Name: ---''" "py ''Name?''",
        OF key resp first_choice_content_ok_body ws] len
    by blast
qed

text \<open>
  C3, as the claim states it, fails at a text of length 8000 when the endpoint answers with
  a blank content: \<open>call_groq\<close> returns the empty string with no error, and
  \<open>groq_fill_missing\<close> does not return that result but the fallback string.
\<close>

theorem fill_missing_8000_blank_content:
  "fst (call_groq cfg_with_key always_blank_200 (fill_prompt (replicate 8000 97)) (1 / 5) 1300 [])
     = (Some [], None)
   \<and> fst (groq_fill_missing cfg_with_key always_blank_200 (replicate 8000 97) [])
       = py ''AI filling failed.''
   \<and> py ''AI filling failed.'' \<noteq> []"
proof -
  have key: "GROQ_API_KEY cfg_with_key \<noteq> []"
    by (simp add: cfg_with_key_def py_def)
  have "strip [SP, NL] = []"
    by (simp add: strip_Nil_iff SP_def NL_def isspace_def)
  then have ok: "fst (call_groq cfg_with_key always_blank_200 (fill_prompt (replicate 8000 97)) (1 / 5) 1300 [])
     = (Some [], None)"
    using call_groq_first_ok [OF key _ first_choice_content_ok_body,
        of always_blank_200 "[]" "fill_prompt (replicate 8000 97)" "1 / 5" 1300 "[SP, NL]"]
    by (simp add: always_blank_200_def)
  then show ?thesis
    by (simp add: groq_fill_missing_def call_groq_chunk_eq) (simp add: py_def)
qed

lemma chunks_8001:
  assumes "length text = 8001"
  shows "chunks text = [take 4000 text, take 4000 (drop 4000 text), drop 8000 text]"
proof -
  have "py_range 0 8001 4000 = [0, 4000, 8000]"
    by (simp add: py_range.simps)
  moreover have "take 4000 (drop 8000 text) = drop 8000 text"
    using assms by simp
  ultimately show ?thesis
    using assms by (simp add: chunks_def slice_def)
qed

text \<open>
  C3, amended: a text of length exactly 8000 is not split; \<open>groq_fill_missing\<close> makes one
  call of \<open>call_groq\<close>, with the prompt of the whole text, and returns its content verbatim
  when that is a non-empty string, and the fallback \<open>AI filling failed.\<close> when \<open>call_groq\<close>
  fails or returns the empty string. A text of length 8001 is split into exactly 3 chunks,
  of sizes 4000, 4000 and 1, and \<open>groq_fill_missing\<close> calls \<open>call_groq\<close> on the three of them
  in this order, each in the network state the one before left, and joins the three outputs
  with newlines.
\<close>

theorem fill_missing_boundary:
  "(length text = 8000 \<longrightarrow>
      groq_fill_missing cfg T text sent =
        ((case fst (fst (call_groq cfg T (fill_prompt text) (1 / 5) 1300 sent)) of
            None \<Rightarrow> py ''AI filling failed.''
          | Some content \<Rightarrow> if content = [] then py ''AI filling failed.'' else content),
         snd (call_groq cfg T (fill_prompt text) (1 / 5) 1300 sent)))
   \<and> (length text = 8001 \<longrightarrow>
      chunks text = [take 4000 text, take 4000 (drop 4000 text), drop 8000 text]
      \<and> map length (chunks text) = [4000, 4000, 1]
      \<and> (let r0 = call_groq cfg T (fill_prompt (take 4000 text)) (1 / 5) 1300 sent;
              r1 = call_groq cfg T (fill_prompt (take 4000 (drop 4000 text))) (1 / 5) 1300 (snd r0);
              r2 = call_groq cfg T (fill_prompt (drop 8000 text)) (1 / 5) 1300 (snd r1)
          in groq_fill_missing cfg T text sent =
               ((case fst (fst r0) of
                   None \<Rightarrow> py ''AI filling failed.''
                 | Some content \<Rightarrow> if content = [] then py ''AI filling failed.'' else content)
                @ [NL]
                @ (case fst (fst r1) of
                     None \<Rightarrow> py ''AI filling failed.''
                   | Some content \<Rightarrow> if content = [] then py ''AI filling failed.'' else content)
                @ [NL]
                @ (case fst (fst r2) of
                     None \<Rightarrow> py ''AI filling failed.''
                   | Some content \<Rightarrow> if content = [] then py ''AI filling failed.'' else content),
                snd r2)))"
proof (intro conjI impI)
  assume "length text = 8000"
  then show "groq_fill_missing cfg T text sent =
        ((case fst (fst (call_groq cfg T (fill_prompt text) (1 / 5) 1300 sent)) of
            None \<Rightarrow> py ''AI filling failed.''
          | Some content \<Rightarrow> if content = [] then py ''AI filling failed.'' else content),
         snd (call_groq cfg T (fill_prompt text) (1 / 5) 1300 sent))"
    by (simp add: groq_fill_missing_def call_groq_chunk_eq content_or_case)
next
  assume l: "length text = 8001"
  then show ch: "chunks text = [take 4000 text, take 4000 (drop 4000 text), drop 8000 text]"
    by (rule chunks_8001)
  with l show "map length (chunks text) = [4000, 4000, 1]"
    by simp
  show "let r0 = call_groq cfg T (fill_prompt (take 4000 text)) (1 / 5) 1300 sent;
              r1 = call_groq cfg T (fill_prompt (take 4000 (drop 4000 text))) (1 / 5) 1300 (snd r0);
              r2 = call_groq cfg T (fill_prompt (drop 8000 text)) (1 / 5) 1300 (snd r1)
          in groq_fill_missing cfg T text sent =
               ((case fst (fst r0) of
                   None \<Rightarrow> py ''AI filling failed.''
                 | Some content \<Rightarrow> if content = [] then py ''AI filling failed.'' else content)
                @ [NL]
                @ (case fst (fst r1) of
                     None \<Rightarrow> py ''AI filling failed.''
                   | Some content \<Rightarrow> if content = [] then py ''AI filling failed.'' else content)
                @ [NL]
                @ (case fst (fst r2) of
                     None \<Rightarrow> py ''AI filling failed.''
                   | Some content \<Rightarrow> if content = [] then py ''AI filling failed.'' else content),
                snd r2)"
    using l by (simp add: groq_fill_missing_def ch call_groq_chunk_eq content_or_case Let_def)
qed

theorem fill_missing_boundary_witness:
  "groq_fill_missing cfg_with_key echo_200 (replicate 8000 97) [] =
     (py ''filled'', [groq_request cfg_with_key (fill_prompt (replicate 8000 97)) (1 / 5) 1300])
   \<and> map length (chunks three_chunk_text) = [4000, 4000, 1]
   \<and> groq_fill_missing cfg_with_key scripted three_chunk_text [] =
     (py ''A'' @ [NL] @ py ''AI filling failed.'' @ [NL] @ py ''C'',
      [groq_request cfg_with_key (fill_prompt (replicate 4000 97)) (1 / 5) 1300,
       groq_request cfg_with_key (fill_prompt (replicate 4000 98)) (1 / 5) 1300,
       groq_request cfg_with_key (fill_prompt (replicate 4000 98)) (1 / 5) 1300,
       groq_request cfg_with_key (fill_prompt (replicate 4000 98)) (1 / 5) 1300,
       groq_request cfg_with_key (fill_prompt [99]) (1 / 5) 1300])
   \<and> req_prompt (groq_request cfg_with_key (fill_prompt [99]) (1 / 5) 1300) =
       [NL] @ py ''You are an expert form assistant. The scanned form text below has missing values like ''
       @ [39] @ py ''N/A'' @ [39] @ py '', '' @ [39] @ py ''nan'' @ [39] @ py '', or ''
       @ [39] @ py ''---'' @ [39] @ py ''.'' @ [NL]
       @ py ''Please fill missing values realistically, preserving format.'' @ [NL, NL]
       @ py ''--- FORM START ---'' @ [NL, 99, NL]
       @ py ''--- FORM END ---'' @ [NL]"
proof -
  have key: "GROQ_API_KEY cfg_with_key \<noteq> []"
    by (simp add: cfg_with_key_def py_def)
  have "strip (py ''filled'') = py ''filled''"
    by (simp add: strip_def py_def isspace_def)
  then have ok: "call_groq cfg_with_key echo_200 (fill_prompt (replicate 8000 97)) (1 / 5) 1300 []
     = ((Some (py ''filled''), None), [groq_request cfg_with_key (fill_prompt (replicate 8000 97)) (1 / 5) 1300])"
    using call_groq_first_ok [OF key _ first_choice_content_ok_body,
        of echo_200 "[]" "fill_prompt (replicate 8000 97)" "1 / 5" 1300 "py ''filled''"]
    by (simp add: echo_200_def)
  have ne: "py ''filled'' \<noteq> []" "py ''A'' \<noteq> []" "py ''C'' \<noteq> []"
    by (simp_all add: py_def)
  have r0: "call_groq cfg_with_key scripted (fill_prompt (replicate 4000 97)) (1 / 5) 1300 [] =
      ((Some (py ''A''), None), [groq_request cfg_with_key (fill_prompt (replicate 4000 97)) (1 / 5) 1300])"
    by (rule scripted_first)
  have r1: "call_groq cfg_with_key scripted (fill_prompt (replicate 4000 98)) (1 / 5) 1300
        [groq_request cfg_with_key (fill_prompt (replicate 4000 97)) (1 / 5) 1300] =
      ((None, Some (py ''Failed after retries'')),
       [groq_request cfg_with_key (fill_prompt (replicate 4000 97)) (1 / 5) 1300,
        groq_request cfg_with_key (fill_prompt (replicate 4000 98)) (1 / 5) 1300,
        groq_request cfg_with_key (fill_prompt (replicate 4000 98)) (1 / 5) 1300,
        groq_request cfg_with_key (fill_prompt (replicate 4000 98)) (1 / 5) 1300])"
    using scripted_second [of "[groq_request cfg_with_key (fill_prompt (replicate 4000 97)) (1 / 5) 1300]"
        "fill_prompt (replicate 4000 98)" "1 / 5" 1300]
    by (simp add: numeral_3_eq_3)
  have r2: "call_groq cfg_with_key scripted (fill_prompt [99]) (1 / 5) 1300
       [groq_request cfg_with_key (fill_prompt (replicate 4000 97)) (1 / 5) 1300,
        groq_request cfg_with_key (fill_prompt (replicate 4000 98)) (1 / 5) 1300,
        groq_request cfg_with_key (fill_prompt (replicate 4000 98)) (1 / 5) 1300,
        groq_request cfg_with_key (fill_prompt (replicate 4000 98)) (1 / 5) 1300] =
      ((Some (py ''C''), None),
       [groq_request cfg_with_key (fill_prompt (replicate 4000 97)) (1 / 5) 1300,
        groq_request cfg_with_key (fill_prompt (replicate 4000 98)) (1 / 5) 1300,
        groq_request cfg_with_key (fill_prompt (replicate 4000 98)) (1 / 5) 1300,
        groq_request cfg_with_key (fill_prompt (replicate 4000 98)) (1 / 5) 1300,
        groq_request cfg_with_key (fill_prompt [99]) (1 / 5) 1300])"
    using scripted_third [of "[groq_request cfg_with_key (fill_prompt (replicate 4000 97)) (1 / 5) 1300,
        groq_request cfg_with_key (fill_prompt (replicate 4000 98)) (1 / 5) 1300,
        groq_request cfg_with_key (fill_prompt (replicate 4000 98)) (1 / 5) 1300,
        groq_request cfg_with_key (fill_prompt (replicate 4000 98)) (1 / 5) 1300]"
        "fill_prompt [99]" "1 / 5" 1300]
    by simp
  show ?thesis
    using fill_missing_boundary [of "replicate 8000 97" cfg_with_key echo_200 "[]"]
      fill_missing_boundary [of three_chunk_text cfg_with_key scripted "[]"] ok ne
    by (simp add: three_chunk_text_parts Let_def r0 r1 r2)
       (simp add: groq_request_def fill_prompt_def)
qed

section \<open>The fill workflow on long texts\<close>

lemma fill_loop_trace:
  "\<exists>outs logs.
      length outs = length cs \<and> length logs = Suc (length cs) \<and> logs ! 0 = sent
    \<and> (\<forall>i < length cs. call_groq_chunk cfg T (cs ! i) (logs ! i) = (outs ! i, logs ! Suc i))
    \<and> fill_loop cfg T cs acc sent = (acc @ outs, last logs)"
proof (induction cs arbitrary: acc sent)
  case Nil
  have "length ([] :: pystr list) = length ([] :: pystr list) \<and> length [sent] = Suc (length ([] :: pystr list))
    \<and> [sent] ! 0 = sent
    \<and> (\<forall>i < length ([] :: pystr list). call_groq_chunk cfg T ([] ! i) ([sent] ! i) = ([] ! i, [sent] ! Suc i))
    \<and> fill_loop cfg T [] acc sent = (acc @ [], last [sent])"
    by simp
  then show ?case by blast
next
  case (Cons c cs)
  obtain filled sent' where step: "call_groq_chunk cfg T c sent = (filled, sent')"
    by (cases "call_groq_chunk cfg T c sent")
  from Cons.IH [of sent' "acc @ [filled]"] obtain outs logs where
    IH: "length outs = length cs" "length logs = Suc (length cs)" "logs ! 0 = sent'"
      "\<forall>i < length cs. call_groq_chunk cfg T (cs ! i) (logs ! i) = (outs ! i, logs ! Suc i)"
      "fill_loop cfg T cs (acc @ [filled]) sent' = ((acc @ [filled]) @ outs, last logs)"
    by blast
  have nth: "call_groq_chunk cfg T ((c # cs) ! i) ((sent # logs) ! i)
      = ((filled # outs) ! i, (sent # logs) ! Suc i)" if "i < length (c # cs)" for i
  proof (cases i)
    case 0
    then show ?thesis using step IH(3) by simp
  next
    case (Suc j)
    with that have "j < length cs" by simp
    with IH(4) Suc show ?thesis by simp
  qed
  have ne: "logs \<noteq> []"
    using IH(2) by auto
  have "length (filled # outs) = length (c # cs) \<and> length (sent # logs) = Suc (length (c # cs))
    \<and> (sent # logs) ! 0 = sent
    \<and> (\<forall>i < length (c # cs). call_groq_chunk cfg T ((c # cs) ! i) ((sent # logs) ! i)
          = ((filled # outs) ! i, (sent # logs) ! Suc i))
    \<and> fill_loop cfg T (c # cs) acc sent = (acc @ filled # outs, last (sent # logs))"
    using IH(1,2,5) step nth ne by simp
  then show ?case by blast
qed

text \<open>
  C2: for a text longer than 8000 characters \<open>groq_fill_missing\<close> always returns a string:
  the outputs of the chunks, one per chunk and in the order of the chunks, joined with
  newlines. The chunks are the slices of 4000 characters of the text, in order. They are
  processed one after the other: for chunk \<open>i\<close>, \<open>call_groq\<close> runs on the prompt of that chunk
  in the network state that chunk \<open>i - 1\<close> left, where it sends at least 1 and at most 3
  requests when a key is configured (and none otherwise), all with that prompt. The output
  of a chunk is the content \<open>call_groq\<close> returns when that is a non-empty string, and the
  fallback string \<open>AI filling failed.\<close> when its completion fails.
\<close>

theorem fill_missing_long:
  assumes "8000 < length text"
  shows "\<exists>outs logs.
      length (chunks text) = (length text + 3999) div 4000
    \<and> (\<forall>i < length (chunks text). chunks text ! i = take 4000 (drop (4000 * i) text))
    \<and> length outs = length (chunks text) \<and> length logs = Suc (length (chunks text))
    \<and> logs ! 0 = sent
    \<and> (\<forall>i < length (chunks text).
          outs ! i =
            (case fst (fst (call_groq cfg T (fill_prompt (chunks text ! i)) (1 / 5) 1300 (logs ! i))) of
               None \<Rightarrow> py ''AI filling failed.''
             | Some content \<Rightarrow> if content = [] then py ''AI filling failed.'' else content)
          \<and> logs ! Suc i = snd (call_groq cfg T (fill_prompt (chunks text ! i)) (1 / 5) 1300 (logs ! i)))
    \<and> (\<forall>i < length (chunks text).
          fst (fst (call_groq cfg T (fill_prompt (chunks text ! i)) (1 / 5) 1300 (logs ! i))) = None
          \<longrightarrow> outs ! i = py ''AI filling failed.'')
    \<and> (\<forall>i < length (chunks text). \<exists>k.
          (if GROQ_API_KEY cfg = [] then k = 0 else 1 \<le> k \<and> k \<le> 3)
          \<and> logs ! Suc i =
              logs ! i @ replicate k (groq_request cfg (fill_prompt (chunks text ! i)) (1 / 5) 1300))
    \<and> groq_fill_missing cfg T text sent = (join [NL] outs, last logs)
    \<and> join [NL] outs = concat (map (\<lambda>out. out @ [NL]) (butlast outs)) @ last outs"
proof -
  from fill_loop_trace [of "chunks text" sent cfg T "[]"] obtain outs logs where
    tr: "length outs = length (chunks text)" "length logs = Suc (length (chunks text))"
      "logs ! 0 = sent"
      "\<forall>i < length (chunks text).
          call_groq_chunk cfg T (chunks text ! i) (logs ! i) = (outs ! i, logs ! Suc i)"
      "fill_loop cfg T (chunks text) [] sent = ([] @ outs, last logs)"
    by blast
  have each: "outs ! i =
            (case fst (fst (call_groq cfg T (fill_prompt (chunks text ! i)) (1 / 5) 1300 (logs ! i))) of
               None \<Rightarrow> py ''AI filling failed.''
             | Some content \<Rightarrow> if content = [] then py ''AI filling failed.'' else content)
          \<and> logs ! Suc i = snd (call_groq cfg T (fill_prompt (chunks text ! i)) (1 / 5) 1300 (logs ! i))"
    if "i < length (chunks text)" for i
  proof -
    from tr(4) that have "call_groq_chunk cfg T (chunks text ! i) (logs ! i) = (outs ! i, logs ! Suc i)"
      by simp
    then show ?thesis
      by (simp add: call_groq_chunk_eq content_or_case)
  qed
  have fb: "outs ! i = py ''AI filling failed.''"
    if "i < length (chunks text)"
      "fst (fst (call_groq cfg T (fill_prompt (chunks text ! i)) (1 / 5) 1300 (logs ! i))) = None" for i
    using each [OF that(1)] that(2) by simp
  have grow: "\<exists>k. (if GROQ_API_KEY cfg = [] then k = 0 else 1 \<le> k \<and> k \<le> 3)
      \<and> logs ! Suc i =
          logs ! i @ replicate k (groq_request cfg (fill_prompt (chunks text ! i)) (1 / 5) 1300)"
    if "i < length (chunks text)" for i
    using each [OF that]
      call_groq_sent_count [of cfg T "fill_prompt (chunks text ! i)" "1 / 5" 1300 "logs ! i"]
    by simp
  have res: "groq_fill_missing cfg T text sent = (join [NL] outs, last logs)"
    using assms tr(5) by (simp add: groq_fill_missing_def)
  have "0 < length (chunks text)"
    using assms by (simp add: length_chunks)
  with tr(1) have "outs \<noteq> []"
    by auto
  then have j: "join [NL] outs = concat (map (\<lambda>out. out @ [NL]) (butlast outs)) @ last outs"
    by (rule join_concat)
  have n: "length (chunks text) = (length text + 3999) div 4000"
    by (rule length_chunks)
  have c: "\<forall>i < length (chunks text). chunks text ! i = take 4000 (drop (4000 * i) text)"
    by (simp add: chunks_nth)
  from n c tr(1-3) each fb grow res j show ?thesis
    by blast
qed

theorem fill_missing_long_witness:
  "groq_fill_missing cfg_with_key scripted three_chunk_text [] =
     (py ''A'' @ [NL] @ py ''AI filling failed.'' @ [NL] @ py ''C'',
      [groq_request cfg_with_key (fill_prompt (replicate 4000 97)) (1 / 5) 1300,
       groq_request cfg_with_key (fill_prompt (replicate 4000 98)) (1 / 5) 1300,
       groq_request cfg_with_key (fill_prompt (replicate 4000 98)) (1 / 5) 1300,
       groq_request cfg_with_key (fill_prompt (replicate 4000 98)) (1 / 5) 1300,
       groq_request cfg_with_key (fill_prompt [99]) (1 / 5) 1300])
   \<and> req_prompt (groq_request cfg_with_key (fill_prompt [99]) (1 / 5) 1300) =
       [NL] @ py ''You are an expert form assistant. The scanned form text below has missing values like ''
       @ [39] @ py ''N/A'' @ [39] @ py '', '' @ [39] @ py ''nan'' @ [39] @ py '', or ''
       @ [39] @ py ''---'' @ [39] @ py ''.'' @ [NL]
       @ py ''Please fill missing values realistically, preserving format.'' @ [NL, NL]
       @ py ''--- FORM START ---'' @ [NL, 99, NL]
       @ py ''--- FORM END ---'' @ [NL]"
proof -
  have long: "8000 < length three_chunk_text"
    by (simp add: three_chunk_text_parts)
  from fill_missing_long [OF long, of "[]" cfg_with_key scripted] obtain outs logs where
    n: "length (chunks three_chunk_text) = (length three_chunk_text + 3999) div 4000"
    and c: "\<forall>i < length (chunks three_chunk_text).
          chunks three_chunk_text ! i = take 4000 (drop (4000 * i) three_chunk_text)"
    and lo: "length outs = length (chunks three_chunk_text)"
    and ll: "length logs = Suc (length (chunks three_chunk_text))"
    and l0: "logs ! 0 = []"
    and each: "\<forall>i < length (chunks three_chunk_text).
          outs ! i =
            (case fst (fst (call_groq cfg_with_key scripted
                (fill_prompt (chunks three_chunk_text ! i)) (1 / 5) 1300 (logs ! i))) of
               None \<Rightarrow> py ''AI filling failed.''
             | Some content \<Rightarrow> if content = [] then py ''AI filling failed.'' else content)
          \<and> logs ! Suc i = snd (call_groq cfg_with_key scripted
                (fill_prompt (chunks three_chunk_text ! i)) (1 / 5) 1300 (logs ! i))"
    and res: "groq_fill_missing cfg_with_key scripted three_chunk_text [] = (join [NL] outs, last logs)"
    and j: "join [NL] outs = concat (map (\<lambda>out. out @ [NL]) (butlast outs)) @ last outs"
    by blast
  have three: "length (chunks three_chunk_text) = Suc (Suc (Suc 0))"
    using n by (simp add: three_chunk_text_parts)
  have c0: "chunks three_chunk_text ! 0 = replicate 4000 97"
    and c1: "chunks three_chunk_text ! Suc 0 = replicate 4000 98"
    and c2: "chunks three_chunk_text ! Suc (Suc 0) = [99]"
    using c three by (simp_all add: three_chunk_text_parts)
  have ne: "py ''A'' \<noteq> []" "py ''C'' \<noteq> []"
    by (simp_all add: py_def)
  have "0 < length (chunks three_chunk_text)"
    by (simp add: three)
  with each have "outs ! 0 =
            (case fst (fst (call_groq cfg_with_key scripted
                (fill_prompt (chunks three_chunk_text ! 0)) (1 / 5) 1300 (logs ! 0))) of
               None \<Rightarrow> py ''AI filling failed.''
             | Some content \<Rightarrow> if content = [] then py ''AI filling failed.'' else content)
          \<and> logs ! Suc 0 = snd (call_groq cfg_with_key scripted
                (fill_prompt (chunks three_chunk_text ! 0)) (1 / 5) 1300 (logs ! 0))"
    by blast
  then have e0: "outs ! 0 = py ''A''"
    and l1: "logs ! Suc 0 = [groq_request cfg_with_key (fill_prompt (replicate 4000 97)) (1 / 5) 1300]"
    using ne by (simp_all add: c0 l0 scripted_first)
  have len1: "length (logs ! Suc 0) = 1"
    by (simp add: l1)
  have "Suc 0 < length (chunks three_chunk_text)"
    by (simp add: three)
  with each have "outs ! Suc 0 =
            (case fst (fst (call_groq cfg_with_key scripted
                (fill_prompt (chunks three_chunk_text ! Suc 0)) (1 / 5) 1300 (logs ! Suc 0))) of
               None \<Rightarrow> py ''AI filling failed.''
             | Some content \<Rightarrow> if content = [] then py ''AI filling failed.'' else content)
          \<and> logs ! Suc (Suc 0) = snd (call_groq cfg_with_key scripted
                (fill_prompt (chunks three_chunk_text ! Suc 0)) (1 / 5) 1300 (logs ! Suc 0))"
    by blast
  then have e1: "outs ! Suc 0 = py ''AI filling failed.''"
    and l2: "logs ! Suc (Suc 0) =
      logs ! Suc 0 @ replicate 3 (groq_request cfg_with_key (fill_prompt (replicate 4000 98)) (1 / 5) 1300)"
    using scripted_second [OF len1, of "fill_prompt (replicate 4000 98)" "1 / 5" 1300]
    by (simp_all add: c1)
  have len2: "length (logs ! Suc (Suc 0)) = 4"
    by (simp add: l2 l1)
  have "Suc (Suc 0) < length (chunks three_chunk_text)"
    by (simp add: three)
  with each have "outs ! Suc (Suc 0) =
            (case fst (fst (call_groq cfg_with_key scripted
                (fill_prompt (chunks three_chunk_text ! Suc (Suc 0))) (1 / 5) 1300 (logs ! Suc (Suc 0)))) of
               None \<Rightarrow> py ''AI filling failed.''
             | Some content \<Rightarrow> if content = [] then py ''AI filling failed.'' else content)
          \<and> logs ! Suc (Suc (Suc 0)) = snd (call_groq cfg_with_key scripted
                (fill_prompt (chunks three_chunk_text ! Suc (Suc 0))) (1 / 5) 1300 (logs ! Suc (Suc 0)))"
    by blast
  then have e2: "outs ! Suc (Suc 0) = py ''C''"
    and l3: "logs ! Suc (Suc (Suc 0)) =
      logs ! Suc (Suc 0) @ [groq_request cfg_with_key (fill_prompt [99]) (1 / 5) 1300]"
    using scripted_third [OF len2, of "fill_prompt [99]" "1 / 5" 1300] ne
    by (simp_all add: c2)
  from lo three obtain a b d where abd: "outs = [a, b, d]"
    by (metis length_0_conv length_Suc_conv)
  with e0 e1 e2 have outs: "outs = [py ''A'', py ''AI filling failed.'', py ''C'']"
    by simp
  have "logs \<noteq> []"
    using ll by auto
  then have "last logs = logs ! Suc (Suc (Suc 0))"
    using ll three by (simp add: last_conv_nth)
  then have last: "last logs =
      [groq_request cfg_with_key (fill_prompt (replicate 4000 97)) (1 / 5) 1300,
       groq_request cfg_with_key (fill_prompt (replicate 4000 98)) (1 / 5) 1300,
       groq_request cfg_with_key (fill_prompt (replicate 4000 98)) (1 / 5) 1300,
       groq_request cfg_with_key (fill_prompt (replicate 4000 98)) (1 / 5) 1300,
       groq_request cfg_with_key (fill_prompt [99]) (1 / 5) 1300]"
    by (simp add: l3 l2 l1 numeral_3_eq_3)
  have run: "groq_fill_missing cfg_with_key scripted three_chunk_text [] =
     (py ''A'' @ [NL] @ py ''AI filling failed.'' @ [NL] @ py ''C'',
      [groq_request cfg_with_key (fill_prompt (replicate 4000 97)) (1 / 5) 1300,
       groq_request cfg_with_key (fill_prompt (replicate 4000 98)) (1 / 5) 1300,
       groq_request cfg_with_key (fill_prompt (replicate 4000 98)) (1 / 5) 1300,
       groq_request cfg_with_key (fill_prompt (replicate 4000 98)) (1 / 5) 1300,
       groq_request cfg_with_key (fill_prompt [99]) (1 / 5) 1300])"
    using res j by (simp add: outs last)
  have prompt: "req_prompt (groq_request cfg_with_key (fill_prompt [99]) (1 / 5) 1300) =
       [NL] @ py ''You are an expert form assistant. The scanned form text below has missing values like ''
       @ [39] @ py ''N/A'' @ [39] @ py '', '' @ [39] @ py ''nan'' @ [39] @ py '', or ''
       @ [39] @ py ''---'' @ [39] @ py ''.'' @ [NL]
       @ py ''Please fill missing values realistically, preserving format.'' @ [NL, NL]
       @ py ''--- FORM START ---'' @ [NL, 99, NL]
       @ py ''--- FORM END ---'' @ [NL]"
    by (simp add: groq_request_def fill_prompt_def)
  show ?thesis
    using run prompt by (rule conjI)
qed

section \<open>Properties of the OCR adapter\<close>

lemma ocr_pages_all:
  "ocr_pages (map Some pages) full_text =
     Some (full_text @ concat (map (\<lambda>page_text. clean_text page_text @ [NL, NL]) pages))"
  by (induction pages arbitrary: full_text) simp_all

lemma clean_text_a: "clean_text [97] = [97]"
  by (simp add: clean_text_def re_sub.simps(2) m_hspace_def hspace_def SP_def TAB_def
      m_blank_def NL_def strip_def isspace_def)

text \<open>
  C9, as the claim states it, fails on a PDF of one page whose OCR text is \<open>a\<close>: the
  normalized pages joined with a blank-line separator give \<open>a\<close>, and \<open>pdf_to_text\<close> gives
  \<open>a\<close> followed by two newlines.
\<close>

theorem pdf_to_text_one_page:
  "pdf_to_text (Rasterized [Some (py ''a'')]) = Some (py ''a'' @ [NL, NL])
   \<and> join [NL, NL] (map clean_text [py ''a'']) = py ''a''
   \<and> py ''a'' @ [NL, NL] \<noteq> py ''a''"
  by (simp add: py_def clean_text_a)

text \<open>
  C9, amended: for every uploaded PDF that rasterizes and whose pages the OCR engine all
  reads, the output of \<open>pdf_to_text\<close> is, page after page, the page's OCR text normalized by
  \<open>clean_text\<close> and followed by a blank-line terminator (two newlines), after the last page
  too; and this output becomes the session's OCR text when the session holds none yet.
\<close>

theorem pdf_to_text_pages:
  "pdf_to_text (Rasterized (map Some pages)) =
     Some (concat (map (\<lambda>page_text. clean_text page_text @ [NL, NL]) pages))
   \<and> (ocr_text st = [] \<longrightarrow>
        upload_step (Rasterized (map Some pages)) st =
          Some (st\<lparr>ocr_text := concat (map (\<lambda>page_text. clean_text page_text @ [NL, NL]) pages)\<rparr>))"
  by (simp add: ocr_pages_all upload_step_def)

theorem pdf_to_text_pages_witness:
  "pdf_to_text (Rasterized [Some (py ''a''), Some (py ''a'')]) = Some (py ''a'' @ [NL, NL] @ py ''a'' @ [NL, NL])
   \<and> upload_step (Rasterized [Some (py ''a''), Some (py ''a'')])
         \<lparr>ocr_text = [], filled_text = [], qa_history = []\<rparr>
       = Some \<lparr>ocr_text = py ''a'' @ [NL, NL] @ py ''a'' @ [NL, NL], filled_text = [], qa_history = []\<rparr>"
  using pdf_to_text_pages [of "[py ''a'', py ''a'']" "\<lparr>ocr_text = [], filled_text = [], qa_history = []\<rparr>"]
  by (simp add: py_def clean_text_a)

section \<open>Properties of the PDF renderer\<close>

lemma strip_id:
  assumes "s \<noteq> []" "\<not> isspace (hd s)" "\<not> isspace (last s)"
  shows "strip s = s"
proof -
  have "dropWhile isspace s = s"
    using assms(1,2) by (cases s) simp_all
  moreover have "dropWhile isspace (rev s) = rev s"
    using assms(1,3) by (cases "rev s") (simp_all add: last_rev [symmetric] del: last_rev)
  ultimately show ?thesis
    by (simp add: strip_def)
qed

lemma wrap_loop_short: "length line \<le> 110 \<Longrightarrow> wrap_loop line y ops = (line, y, ops)"
  by (simp add: wrap_loop.simps)

lemma wrap_loop_111:
  "length line = 111 \<Longrightarrow>
   wrap_loop line y ops = (drop 110 line, y - 12, ops @ [DrawString 40 y (take 110 line)])"
  by (subst wrap_loop.simps) (simp add: wrap_loop_short)

lemma split_acc_no_sep: "sep \<notin> set s \<Longrightarrow> split_acc sep cur s = [cur @ s]"
  by (induction s arbitrary: cur) auto

lemma split_acc_seps:
  "split_acc sep cur (replicate (Suc n) sep @ s) = cur # replicate n [] @ split_acc sep [] s"
  by (induction n arbitrary: cur) simp_all

lemma fold_render_blank:
  "fold render_line (replicate n []) (y, ops) = (y - 12 * int n, ops)"
  by (induction n arbitrary: y) (simp_all add: render_line_def strip_def)

text \<open>
  C7: a non-blank line of exactly 110 characters is drawn by one \<open>drawString\<close>, at the cursor;
  a non-blank line of 111 characters by exactly two, its first 110 characters at the cursor
  and the rest (stripped) one line height below. This holds for the loop body at any cursor
  and canvas, and so for the document that consists of that line.
\<close>

theorem render_110_111:
  assumes "strip line \<noteq> []"
  shows "(length line = 110 \<longrightarrow>
      render_line line (y, ops) =
        (if y - 12 < 40
         then (752, ops @ [DrawString 40 y (strip line), ShowPage, SetFont ''Helvetica'' 10])
         else (y - 12, ops @ [DrawString 40 y (strip line)])))
    \<and> (length line = 111 \<longrightarrow>
      render_line line (y, ops) =
        (if y - 24 < 40
         then (752, ops @ [DrawString 40 y (take 110 line),
                           DrawString 40 (y - 12) (strip (drop 110 line)),
                           ShowPage, SetFont ''Helvetica'' 10])
         else (y - 24, ops @ [DrawString 40 y (take 110 line),
                              DrawString 40 (y - 12) (strip (drop 110 line))])))
    \<and> (length line = 110 \<and> NL \<notin> set line \<longrightarrow>
      generate_pdf line =
        [SetFont ''Helvetica-Bold'' 14,
         DrawString 40 752 (py ''Final Clean Form (AI-filled)''),
         SetFont ''Helvetica'' 10,
         DrawString 40 722 (strip line),
         Save])
    \<and> (length line = 111 \<and> NL \<notin> set line \<longrightarrow>
      generate_pdf line =
        [SetFont ''Helvetica-Bold'' 14,
         DrawString 40 752 (py ''Final Clean Form (AI-filled)''),
         SetFont ''Helvetica'' 10,
         DrawString 40 722 (take 110 line),
         DrawString 40 710 (strip (drop 110 line)),
         Save])"
proof -
  have one: "render_line line (y, ops) =
        (if y - 12 < 40
         then (752, ops @ [DrawString 40 y (strip line), ShowPage, SetFont ''Helvetica'' 10])
         else (y - 12, ops @ [DrawString 40 y (strip line)]))"
    if "length line = 110" for y ops
    using assms that by (simp add: render_line_def wrap_loop_short)
  have two: "render_line line (y, ops) =
        (if y - 24 < 40
         then (752, ops @ [DrawString 40 y (take 110 line),
                           DrawString 40 (y - 12) (strip (drop 110 line)),
                           ShowPage, SetFont ''Helvetica'' 10])
         else (y - 24, ops @ [DrawString 40 y (take 110 line),
                              DrawString 40 (y - 12) (strip (drop 110 line))]))"
    if "length line = 111" for y ops
    using assms that by (simp add: render_line_def wrap_loop_111)
  have doc: "generate_pdf line =
      snd (render_line line (722,
             [SetFont ''Helvetica-Bold'' 14,
              DrawString 40 752 (py ''Final Clean Form (AI-filled)''),
              SetFont ''Helvetica'' 10])) @ [Save]"
    if "NL \<notin> set line"
    using that by (simp add: generate_pdf_def split_on_def split_acc_no_sep)
  show ?thesis
    using one two doc by simp
qed

theorem render_110_111_witness:
  "generate_pdf (replicate 110 97) =
     [SetFont ''Helvetica-Bold'' 14,
      DrawString 40 752 (py ''Final Clean Form (AI-filled)''),
      SetFont ''Helvetica'' 10,
      DrawString 40 722 (replicate 110 97),
      Save]
   \<and> generate_pdf (replicate 111 97) =
     [SetFont ''Helvetica-Bold'' 14,
      DrawString 40 752 (py ''Final Clean Form (AI-filled)''),
      SetFont ''Helvetica'' 10,
      DrawString 40 722 (replicate 110 97),
      DrawString 40 710 [97],
      Save]"
proof -
  have ns: "\<not> isspace 97"
    by (simp add: isspace_def)
  have s: "strip (replicate n 97) = replicate n 97" for n
  proof (cases n)
    case 0
    then show ?thesis by (simp add: strip_def)
  next
    case (Suc k)
    then show ?thesis
      using ns by (intro strip_id) simp_all
  qed
  have ne: "strip (replicate 110 97) \<noteq> []" "strip (replicate 111 97) \<noteq> []"
    by (simp_all add: s)
  have nl: "NL \<notin> set (replicate 110 97)" "NL \<notin> set (replicate 111 97)"
    by (simp_all add: NL_def)
  have d: "drop 110 (replicate 111 (97::nat)) = [97]" "take 110 (replicate 111 (97::nat)) = replicate 110 97"
    by simp_all
  have s1: "strip [97] = [97]"
    using s [of 1] by simp
  show ?thesis
    using render_110_111 [OF ne(1), of 0 "[]"] render_110_111 [OF ne(2), of 0 "[]"] nl
    by (simp add: s d s1)
qed

text \<open>
  C6 fails on the code. The text \<open>a\<close>, 70 newlines, \<open>x\<close> has 69 blank lines between its
  two non-blank lines; each blank line lowers the cursor by 12 without the test for the
  bottom margin, so \<open>x\<close> is drawn at \<open>y = - 118\<close>, below the bottom margin of 40, and the
  page break comes only after it.
\<close>

theorem generate_pdf_draws_below_margin:
  "generate_pdf (py ''a'' @ replicate 70 NL @ py ''x'') =
     [SetFont ''Helvetica-Bold'' 14,
      DrawString 40 752 (py ''Final Clean Form (AI-filled)''),
      SetFont ''Helvetica'' 10,
      DrawString 40 722 (py ''a''),
      DrawString 40 (- 118) (py ''x''),
      ShowPage,
      SetFont ''Helvetica'' 10,
      Save]"
proof -
  have sp: "split_on NL (py ''a'' @ replicate 70 NL @ py ''x'') = [97] # replicate 69 [] @ [[120]]"
    using split_acc_seps [of NL "[97]" 69 "[120]"]
    by (simp add: split_on_def py_def NL_def)
  have s: "strip [97] = [97]" "strip [120] = [120]"
    by (simp_all add: strip_def isspace_def)
  have a: "render_line [97] (722, ops) = (710, ops @ [DrawString 40 722 [97]])" for ops
    by (simp add: render_line_def s wrap_loop_short)
  have x: "render_line [120] (- 118, ops) =
      (752, ops @ [DrawString 40 (- 118) [120], ShowPage, SetFont ''Helvetica'' 10])" for ops
    by (simp add: render_line_def s wrap_loop_short)
  show ?thesis
    by (simp add: generate_pdf_def sp a fold_render_blank x del: fold_replicate)
       (simp add: py_def)
qed

section \<open>The text normalizer is idempotent\<close>

subsection \<open>The matchers\<close>

lemma isspace_NL [simp]: "isspace NL"
  by (simp add: isspace_def NL_def)

lemma hspace_not_NL [simp]: "\<not> hspace NL"
  by (simp add: hspace_def NL_def SP_def TAB_def)

lemma nl_plus_simps [simp]:
  "nl_plus [] = 0"
  "nl_plus (NL # s) = Suc (nl_plus s)"
  "c \<noteq> NL \<Longrightarrow> nl_plus (c # s) = 0"
  by (simp_all add: nl_plus_def)

lemma nl_plus_none:
  assumes "NL \<notin> set p" "d = [] \<or> \<not> isspace (hd d)"
  shows "nl_plus (p @ d) = 0"
proof (cases p)
  case Nil
  show ?thesis
  proof (cases d)
    case Nil
    with \<open>p = []\<close> show ?thesis by simp
  next
    case (Cons x xs)
    with assms(2) have "x \<noteq> NL" by auto
    with Cons \<open>p = []\<close> show ?thesis by simp
  qed
next
  case (Cons x xs)
  with assms(1) show ?thesis by simp
qed

lemma ws_star_none:
  "(\<And>i. i \<le> k \<Longrightarrow> nl_plus (drop i r) = 0) \<Longrightarrow> ws_star_nl_plus k r = None"
proof (induction k)
  case 0
  from 0 [of 0] show ?case by simp
next
  case (Suc k)
  from Suc.prems [of "Suc k"] have "nl_plus (drop (Suc k) r) = 0" by simp
  moreover have "ws_star_nl_plus k r = None"
    by (rule Suc.IH) (simp add: Suc.prems)
  ultimately show ?case by simp
qed

lemma ws_star_last:
  "j \<le> k \<Longrightarrow> 0 < nl_plus (drop j r) \<Longrightarrow>
   (\<And>i. j < i \<Longrightarrow> i \<le> k \<Longrightarrow> nl_plus (drop i r) = 0) \<Longrightarrow>
   ws_star_nl_plus k r = Some (j + nl_plus (drop j r))"
proof (induction k)
  case 0
  then show ?case by simp
next
  case (Suc k)
  show ?case
  proof (cases "j = Suc k")
    case True
    with Suc.prems(2) show ?thesis by simp
  next
    case False
    with Suc.prems(1) have jk: "j \<le> k" by simp
    then have "nl_plus (drop (Suc k) r) = 0"
      using Suc.prems(3) [of "Suc k"] by simp
    moreover have "ws_star_nl_plus k r = Some (j + nl_plus (drop j r))"
      using jk Suc.prems(2) by (rule Suc.IH) (simp add: Suc.prems(3))
    ultimately show ?thesis by simp
  qed
qed

lemma m_blank_other [simp]: "c \<noteq> NL \<Longrightarrow> m_blank (c # r) = 0"
  by (simp add: m_blank_def)

lemma dropWhile_stops: "dropWhile P xs = [] \<or> \<not> P (hd (dropWhile P xs))"
  using hd_dropWhile [of P xs] by blast

lemma m_blank_no_second:
  assumes "NL \<notin> set (lead r)"
  shows "m_blank (NL # r) = 0"
proof -
  define w dw where "w = lead r" and "dw = dropWhile isspace r"
  have r: "r = w @ dw"
    by (simp add: w_def dw_def)
  have d: "dw = [] \<or> \<not> isspace (hd dw)"
    unfolding dw_def by (rule dropWhile_stops)
  have "nl_plus (drop i r) = 0" if "i \<le> length w" for i
  proof -
    have "drop i r = drop i w @ dw"
      unfolding r using that by simp
    moreover have "NL \<notin> set (drop i w)"
      using assms in_set_dropD [of NL i w] by (auto simp: w_def)
    ultimately show ?thesis
      using d by (simp add: nl_plus_none)
  qed
  then have "ws_star_nl_plus (length (lead r)) r = None"
    unfolding w_def by (rule ws_star_none)
  then show ?thesis
    by (simp add: m_blank_def)
qed

lemma m_blank_second:
  assumes "lead r = mid @ NL # aft" "NL \<notin> set aft"
  shows "m_blank (NL # r) = length mid + 2"
proof -
  define dw where "dw = dropWhile isspace r"
  have d: "dw = [] \<or> \<not> isspace (hd dw)"
    unfolding dw_def by (rule dropWhile_stops)
  have "r = lead r @ dw"
    by (simp add: dw_def)
  then have r: "r = mid @ NL # aft @ dw"
    by (simp add: assms(1))
  have at: "drop (length mid) r = NL # aft @ dw"
    by (subst r) simp
  have "nl_plus (aft @ dw) = 0"
    using assms(2) d by (rule nl_plus_none)
  with at have one: "nl_plus (drop (length mid) r) = 1"
    by simp
  have after: "nl_plus (drop i r) = 0" if "length mid < i" "i \<le> length (lead r)" for i
  proof -
    from that have i: "i - Suc (length mid) \<le> length aft"
      by (simp add: assms(1))
    have "drop i r = drop (i - length mid) (NL # aft @ dw)"
      using that(1) by (subst r) simp
    also have "\<dots> = drop (i - Suc (length mid)) (aft @ dw)"
      using that(1) by (simp add: drop_Cons')
    also have "\<dots> = drop (i - Suc (length mid)) aft @ dw"
      using i by simp
    finally have "drop i r = drop (i - Suc (length mid)) aft @ dw" .
    moreover have "NL \<notin> set (drop (i - Suc (length mid)) aft)"
      using assms(2) in_set_dropD [of NL "i - Suc (length mid)" aft] by auto
    ultimately show ?thesis
      using d by (simp add: nl_plus_none)
  qed
  have "ws_star_nl_plus (length (lead r)) r = Some (length mid + nl_plus (drop (length mid) r))"
  proof (rule ws_star_last)
    show "length mid \<le> length (lead r)"
      by (simp add: assms(1))
    show "0 < nl_plus (drop (length mid) r)"
      by (simp add: one)
  qed (rule after)
  then show ?thesis
    by (simp add: m_blank_def one)
qed

lemma second_newline_cases:
  obtains (none) "NL \<notin> set (lead r)"
  | (some) mid aft where "lead r = mid @ NL # aft" "NL \<notin> set aft"
  using split_list_last [of NL "lead r"] by blast

subsection \<open>The substitution of blank lines\<close>

lemma sub_blank_other: "c \<noteq> NL \<Longrightarrow> sub_blank (c # r) = c # sub_blank r"
  by (simp add: re_sub.simps(2))

lemma sub_blank_no_second:
  "NL \<notin> set (lead r) \<Longrightarrow> sub_blank (NL # r) = NL # sub_blank r"
  by (simp add: re_sub.simps(2) m_blank_no_second)

lemma sub_blank_second:
  assumes "lead r = mid @ NL # aft" "NL \<notin> set aft"
  shows "sub_blank (NL # r) = NL # NL # sub_blank (aft @ dropWhile isspace r)"
proof -
  define dw where "dw = dropWhile isspace r"
  have "r = lead r @ dw"
    by (simp add: dw_def)
  then have r: "r = mid @ NL # aft @ dw"
    by (simp add: assms(1))
  have "drop (Suc (length mid)) r = aft @ dw"
    by (subst r) simp
  then show ?thesis
    using m_blank_second [OF assms] by (simp add: re_sub.simps(2) dw_def)
qed

lemma takeWhile_append_stop: "takeWhile P ys = [] \<Longrightarrow> takeWhile P (xs @ ys) = takeWhile P xs"
  by (induction xs) auto

lemma lead_dropWhile: "takeWhile P (dropWhile P xs) = []"
  by (induction xs) auto

lemma lead_after: "lead (aft @ dropWhile isspace r) = lead aft"
  by (simp add: takeWhile_append_stop lead_dropWhile)

lemma lead_sub_blank:
  "NL \<notin> set (lead r) \<Longrightarrow> lead (sub_blank r) = lead r"
proof (induction r)
  case Nil
  then show ?case by simp
next
  case (Cons c r)
  show ?case
  proof (cases "isspace c")
    case True
    with Cons.prems have "c \<noteq> NL" "NL \<notin> set (lead r)" by auto
    with Cons.IH True show ?thesis
      by (simp add: sub_blank_other)
  next
    case False
    then have "c \<noteq> NL" by auto
    with False show ?thesis
      by (simp add: sub_blank_other)
  qed
qed

lemma sub_blank_keeps_head: "\<exists>t. sub_blank (c # r) = c # t"
proof (cases "c = NL")
  case True
  show ?thesis
  proof (cases r rule: second_newline_cases)
    case none
    with True show ?thesis by (simp add: sub_blank_no_second)
  next
    case (some mid aft)
    with True show ?thesis by (simp add: sub_blank_second)
  qed
next
  case False
  then show ?thesis by (simp add: sub_blank_other)
qed

subsection \<open>Blank-normal strings\<close>

lemma blank_normal_other: "c \<noteq> NL \<Longrightarrow> blank_normal (c # r) = blank_normal r"
  by (cases r) simp_all

lemma blank_normal_none: "NL \<notin> set (lead r) \<Longrightarrow> blank_normal (NL # r) = blank_normal r"
  by (cases r) simp_all

lemma blank_normal_two:
  "NL \<notin> set (lead r) \<Longrightarrow> blank_normal (NL # NL # r) = blank_normal r"
  by (simp add: blank_normal_none)

lemma blank_normal_tl: "blank_normal (c # r) \<Longrightarrow> blank_normal r"
  by (cases r) simp_all

lemma blank_normal_NL:
  assumes "blank_normal (NL # r)"
  obtains (none) "NL \<notin> set (lead r)"
  | (two) r' where "r = NL # r'" "NL \<notin> set (lead r')"
  using assms by (cases r) auto

lemma blank_normal_sub_blank: "blank_normal (sub_blank s)"
proof (induction s rule: length_induct)
  case (1 s)
  show ?case
  proof (cases s)
    case Nil
    then show ?thesis by simp
  next
    case (Cons c r)
    have r: "blank_normal (sub_blank r)"
      using 1 Cons by simp
    show ?thesis
    proof (cases "c = NL")
      case False
      with r Cons show ?thesis
        by (simp add: sub_blank_other blank_normal_other)
    next
      case True
      show ?thesis
      proof (cases r rule: second_newline_cases)
        case none
        then have "NL \<notin> set (lead (sub_blank r))"
          by (simp add: lead_sub_blank)
        with none r Cons True show ?thesis
          by (simp add: sub_blank_no_second blank_normal_none)
      next
        case (some mid aft)
        define d where "d = aft @ dropWhile isspace r"
        have "r = lead r @ dropWhile isspace r"
          by simp
        then have rd: "r = (mid @ [NL]) @ d"
          unfolding d_def some(1) by simp
        have "length r = length mid + 1 + length d"
          by (subst rd) simp
        then have "length d < length s"
          using Cons by simp
        with 1 have d: "blank_normal (sub_blank d)"
          by simp
        have "NL \<notin> set (lead d)"
          using some(2) set_takeWhileD [of NL isspace aft] by (auto simp: d_def lead_after)
        then have "NL \<notin> set (lead (sub_blank d))"
          by (simp add: lead_sub_blank)
        then have "blank_normal (NL # NL # sub_blank d) = blank_normal (sub_blank d)"
          by (rule blank_normal_two)
        with d have "blank_normal (NL # NL # sub_blank d)"
          by blast
        then show ?thesis
          using some Cons True by (simp add: sub_blank_second d_def)
      qed
    qed
  qed
qed

lemma sub_blank_blank_normal: "blank_normal s \<Longrightarrow> sub_blank s = s"
proof (induction s rule: length_induct)
  case (1 s)
  show ?case
  proof (cases s)
    case Nil
    then show ?thesis by simp
  next
    case (Cons c r)
    with 1 have bn: "blank_normal (c # r)" by simp
    then have "blank_normal r"
      by (rule blank_normal_tl)
    with 1 Cons have r: "sub_blank r = r"
      by simp
    show ?thesis
    proof (cases "c = NL")
      case False
      with r Cons show ?thesis
        by (simp add: sub_blank_other)
    next
      case True
      with bn have "blank_normal (NL # r)" by simp
      then show ?thesis
      proof (cases rule: blank_normal_NL)
        case none
        with r Cons True show ?thesis
          by (simp add: sub_blank_no_second)
      next
        case (two r')
        from \<open>blank_normal r\<close> two(1) have "blank_normal r'"
          using blank_normal_tl by blast
        with 1 Cons two(1) have r': "sub_blank r' = r'"
          by simp
        have "lead r = [] @ NL # lead r'"
          using two(1) by simp
        moreover have "NL \<notin> set (lead r')"
          by (rule two(2))
        ultimately have "sub_blank (NL # r) = NL # NL # sub_blank (lead r' @ dropWhile isspace r)"
          by (rule sub_blank_second)
        also have "lead r' @ dropWhile isspace r = r'"
          using two(1) by simp
        finally show ?thesis
          using r' two(1) Cons True by simp
      qed
    qed
  qed
qed

lemma set_lead_append: "set (lead a) \<subseteq> set (lead (a @ b))"
  by (induction a) auto

lemma blank_normal_prefix: "blank_normal (a @ b) \<Longrightarrow> blank_normal a"
proof (induction a rule: blank_normal.induct)
  case 1
  then show ?case by simp
next
  case (2 c)
  then show ?case by simp
next
  case (3 c d r)
  from 3(2) have "blank_normal ((d # r) @ b)"
    using blank_normal_tl [of c "(d # r) @ b"] by simp
  then have rest: "blank_normal (d # r)"
    by (rule 3(1))
  show ?case
  proof (cases "c = NL")
    case False
    with rest show ?thesis by simp
  next
    case True
    with 3(2) have "NL \<notin> set (lead (d # r @ b)) \<or> (d = NL \<and> NL \<notin> set (lead (r @ b)))"
      by simp
    then have "NL \<notin> set (lead (d # r)) \<or> (d = NL \<and> NL \<notin> set (lead r))"
      using set_lead_append [of "d # r" b] set_lead_append [of r b] by auto
    with rest True show ?thesis by simp
  qed
qed

lemma blank_normal_suffix: "blank_normal (a @ b) \<Longrightarrow> blank_normal b"
  by (induction a) (auto dest: blank_normal_tl)

subsection \<open>Single-spaced strings\<close>

lemma sub_hspace_Cons:
  "sub_hspace (c # r) =
     (if hspace c then SP # sub_hspace (dropWhile hspace r) else c # sub_hspace r)"
  by (simp add: re_sub.simps(2) m_hspace_def dropWhile_eq_drop [symmetric])

lemma sub_hspace_no_hspace_head:
  "takeWhile hspace r = [] \<Longrightarrow> takeWhile hspace (sub_hspace r) = []"
  by (cases r) (auto simp: sub_hspace_Cons split: if_splits)

lemma single_spaced_sub_hspace: "single_spaced (sub_hspace s)"
proof (induction s rule: length_induct)
  case (1 s)
  show ?case
  proof (cases s)
    case Nil
    then show ?thesis by simp
  next
    case (Cons c r)
    show ?thesis
    proof (cases "hspace c")
      case True
      have "length (dropWhile hspace r) < length s"
        using Cons length_dropWhile_le [of hspace r] by simp
      with 1 have "single_spaced (sub_hspace (dropWhile hspace r))"
        by simp
      moreover have "takeWhile hspace (sub_hspace (dropWhile hspace r)) = []"
        by (rule sub_hspace_no_hspace_head) (rule lead_dropWhile)
      ultimately show ?thesis
        using True Cons by (simp add: sub_hspace_Cons hspace_def)
    next
      case False
      with 1 Cons show ?thesis
        by (simp add: sub_hspace_Cons)
    qed
  qed
qed

lemma sub_hspace_single_spaced: "single_spaced s \<Longrightarrow> sub_hspace s = s"
proof (induction s)
  case Nil
  then show ?case by simp
next
  case (Cons c r)
  show ?case
  proof (cases "hspace c")
    case True
    with Cons.prems have c: "c = SP" "takeWhile hspace r = []" "single_spaced r"
      by simp_all
    from c(2) have "dropWhile hspace r = r"
      by (cases r) (auto split: if_splits)
    with c True Cons.IH show ?thesis
      by (simp add: sub_hspace_Cons)
  next
    case False
    with Cons show ?thesis
      by (simp add: sub_hspace_Cons)
  qed
qed

lemma single_spaced_suffix: "single_spaced (a @ b) \<Longrightarrow> single_spaced b"
  by (induction a) (auto split: if_splits)

lemma takeWhile_Nil_prefix: "takeWhile P (a @ b) = [] \<Longrightarrow> takeWhile P a = []"
  by (cases a) (auto split: if_splits)

lemma single_spaced_prefix: "single_spaced (a @ b) \<Longrightarrow> single_spaced a"
  by (induction a) (auto split: if_splits dest: takeWhile_Nil_prefix)

lemma sub_blank_no_hspace_head:
  assumes "takeWhile hspace r = []"
  shows "takeWhile hspace (sub_blank r) = []"
proof (cases r)
  case Nil
  then show ?thesis by simp
next
  case (Cons c r')
  with assms have "\<not> hspace c"
    by (auto split: if_splits)
  moreover obtain t where "sub_blank (c # r') = c # t"
    using sub_blank_keeps_head by blast
  ultimately show ?thesis
    using Cons by simp
qed

lemma single_spaced_sub_blank: "single_spaced s \<Longrightarrow> single_spaced (sub_blank s)"
proof (induction s rule: length_induct)
  case (1 s)
  show ?case
  proof (cases s)
    case Nil
    then show ?thesis by simp
  next
    case (Cons c r)
    show ?thesis
    proof (cases "c = NL")
      case False
      from 1(2) Cons have "single_spaced r"
        by (simp split: if_splits)
      with 1(1) Cons have r: "single_spaced (sub_blank r)"
        by simp
      from 1(2) Cons have "hspace c \<longrightarrow> c = SP \<and> takeWhile hspace (sub_blank r) = []"
        by (auto split: if_splits intro: sub_blank_no_hspace_head)
      with r False Cons show ?thesis
        by (simp add: sub_blank_other)
    next
      case True
      from 1(2) Cons True have sr: "single_spaced r"
        by simp
      show ?thesis
      proof (cases r rule: second_newline_cases)
        case none
        from 1(1) Cons sr have "single_spaced (sub_blank r)"
          by simp
        with none Cons True show ?thesis
          by (simp add: sub_blank_no_second)
      next
        case (some mid aft)
        define d where "d = aft @ dropWhile isspace r"
        have "r = lead r @ dropWhile isspace r"
          by simp
        then have rd: "r = (mid @ [NL]) @ d"
          unfolding d_def some(1) by simp
        have "length r = length mid + 1 + length d"
          by (subst rd) simp
        then have "length d < length s"
          using Cons by simp
        moreover have "single_spaced ((mid @ [NL]) @ d)"
          using sr by (subst (asm) rd)
        then have "single_spaced d"
          by (rule single_spaced_suffix)
        ultimately have "single_spaced (sub_blank d)"
          using 1(1) by simp
        then show ?thesis
          using some Cons True by (simp add: sub_blank_second d_def)
      qed
    qed
  qed
qed

subsection \<open>Stripping\<close>

lemma strip_decomp: "\<exists>p q. s = p @ strip s @ q"
proof -
  define d where "d = dropWhile isspace s"
  have "rev (dropWhile isspace (rev d)) @ rev (takeWhile isspace (rev d))
      = rev (takeWhile isspace (rev d) @ dropWhile isspace (rev d))"
    by (simp only: rev_append)
  also have "\<dots> = d"
    by (simp only: takeWhile_dropWhile_id rev_rev_ident)
  finally have "d = strip s @ rev (takeWhile isspace (rev d))"
    by (simp add: strip_def d_def)
  moreover have "s = takeWhile isspace s @ d"
    by (simp add: d_def)
  ultimately have "s = takeWhile isspace s @ strip s @ rev (takeWhile isspace (rev d))"
    by simp
  then show ?thesis
    by blast
qed

lemma strip_ends:
  assumes "strip s \<noteq> []"
  shows "\<not> isspace (hd (strip s))" "\<not> isspace (last (strip s))"
proof -
  define d where "d = dropWhile isspace s"
  define e where "e = dropWhile isspace (rev d)"
  have s: "strip s = rev e"
    by (simp add: strip_def d_def e_def)
  with assms have e: "e \<noteq> []"
    by simp
  then have "\<not> isspace (hd e)"
    unfolding e_def using hd_dropWhile by blast
  with e s show "\<not> isspace (last (strip s))"
    by (simp add: last_rev)
  from e have d: "d \<noteq> []"
    by (auto simp: e_def)
  then have nd: "\<not> isspace (hd d)"
    unfolding d_def using hd_dropWhile by blast
  define w where "w = takeWhile isspace (rev d)"
  have "rev d = w @ e"
    by (simp add: w_def e_def)
  with e have "last e = last (rev d)"
    by simp
  with d have "last e = hd d"
    by (simp add: last_rev)
  with nd e s show "\<not> isspace (hd (strip s))"
    by (simp add: hd_rev)
qed

lemma strip_strip: "strip (strip s) = strip s"
proof (cases "strip s = []")
  case True
  have "strip [] = []"
    by (simp add: strip_def)
  with True show ?thesis by simp
next
  case False
  then show ?thesis
    by (intro strip_id strip_ends)
qed

subsection \<open>Idempotence\<close>

text \<open>
  C8: the text normalizer is idempotent: \<open>clean_text (clean_text x) = clean_text x\<close> for
  every string \<open>x\<close>.
\<close>

theorem clean_text_idempotent: "clean_text (clean_text x) = clean_text x"
proof -
  define t where "t = sub_blank (sub_hspace x)"
  obtain p q where t: "t = p @ strip t @ q"
    using strip_decomp by blast
  have "single_spaced t"
    unfolding t_def by (intro single_spaced_sub_blank single_spaced_sub_hspace)
  then have "single_spaced (p @ strip t @ q)"
    using t by simp
  then have "single_spaced (strip t)"
    using single_spaced_suffix single_spaced_prefix by blast
  then have h: "sub_hspace (strip t) = strip t"
    by (rule sub_hspace_single_spaced)
  have "blank_normal t"
    unfolding t_def by (rule blank_normal_sub_blank)
  then have "blank_normal (p @ strip t @ q)"
    using t by simp
  then have "blank_normal (strip t)"
    using blank_normal_suffix blank_normal_prefix by blast
  then have b: "sub_blank (strip t) = strip t"
    by (rule sub_blank_blank_normal)
  have "clean_text x = strip t"
    by (simp add: clean_text_def t_def)
  moreover have "clean_text (strip t) = strip t"
    by (simp add: clean_text_def h b strip_strip)
  ultimately show ?thesis
    by simp
qed

theorem clean_text_idempotent_witness:
  "clean_text (clean_text [SP, 97, SP, TAB, NL, SP, NL, NL, 98, NL]) =
     clean_text [SP, 97, SP, TAB, NL, SP, NL, NL, 98, NL]"
  using clean_text_idempotent [of "[SP, 97, SP, TAB, NL, SP, NL, NL, 98, NL]"] .

end
